theory Spec2Isabelle
  imports Complex_Main "HOL-Library.Code_Target_Nat"
begin

section \<open>Python values read from dictionaries\<close>

text \<open>
  The extraction engine hands back dictionaries. A key of such a dictionary is in one of
  three conditions, which the source tells apart: the key is missing, the key is present
  with the value \<open>None\<close>, or the key is present with a proper value. A value that was
  looked up is an \<open>option\<close>, where \<open>None\<close> is Python's \<open>None\<close>.
\<close>

datatype 'a field = Missing | PyNone | Val 'a

datatype exn = HTTPException nat string | WebSocketDisconnect

text \<open>
  A string that comes from the engine is a sequence of Unicode code points, since the
  source goes on to encode it; \<open>lit\<close> is such a string written in the program text.
  Strings that the program only passes on or compares (ids, urls, the texts of
  exceptions) are kept as \<open>string\<close>.
\<close>

type_synonym unicode = "nat list"

definition lit :: "string \<Rightarrow> unicode" where
  "lit s = map of_char s"

text \<open>\<open>d.get(k)\<close>: a missing key reads as \<open>None\<close>.\<close>

fun get :: "'a field \<Rightarrow> 'a option" where
  "get Missing = None"
| "get PyNone = None"
| "get (Val v) = Some v"

text \<open>\<open>d.get(k, default)\<close>: only a missing key reads as the default.\<close>

fun get_default :: "'a field \<Rightarrow> 'a \<Rightarrow> 'a option" where
  "get_default Missing d = Some d"
| "get_default PyNone d = None"
| "get_default (Val v) d = Some v"

text \<open>\<open>d[k]\<close>: a missing key raises \<open>KeyError\<close>, whose \<open>str\<close> is the quoted key.\<close>

fun index :: "string \<Rightarrow> 'a field \<Rightarrow> string + 'a option" where
  "index k Missing = Inl ([CHR 0x27] @ k @ [CHR 0x27])"
| "index k PyNone = Inr None"
| "index k (Val v) = Inr (Some v)"

text \<open>\<open>str\<close> of a string value or of \<open>None\<close>, as an f-string renders it.\<close>

fun py_str :: "unicode option \<Rightarrow> unicode" where
  "py_str None = lit ''None''"
| "py_str (Some s) = s"

text \<open>Truthiness of a string value: \<open>None\<close> and the empty string are falsy.\<close>

fun truthy :: "'a list option \<Rightarrow> bool" where
  "truthy None = False"
| "truthy (Some s) = (s \<noteq> [])"

section \<open>Decimal and hexadecimal digits\<close>

text \<open>
  Decimal rendering of a natural number, and the inverse reading of a digit string.
\<close>

definition digit :: "nat \<Rightarrow> char" where
  "digit n = ''0123456789'' ! n"

function show_nat :: "nat \<Rightarrow> string" where
  "show_nat n = (if n < 10 then [digit n] else show_nat (n div 10) @ [digit (n mod 10)])"
  by pat_completeness auto
termination
  by (relation "measure (\<lambda>n. n)") auto

declare show_nat.simps [simp del]

definition digit_val :: "char \<Rightarrow> nat" where
  "digit_val c = of_char c - 48"

definition read_nat :: "string \<Rightarrow> nat" where
  "read_nat s = foldl (\<lambda>a c. 10 * a + digit_val c) 0 s"

text \<open>\<open>'%04x'\<close> and \<open>'%08x'\<close>: lower-case hexadecimal, padded with zeros to a width.\<close>

definition hex_digit :: "nat \<Rightarrow> char" where
  "hex_digit n = ''0123456789abcdef'' ! n"

fun show_hex :: "nat \<Rightarrow> nat \<Rightarrow> string" where
  "show_hex 0 n = []"
| "show_hex (Suc width) n = show_hex width (n div 16) @ [hex_digit (n mod 16)]"

section \<open>Encoding a header value\<close>

text \<open>
  The response encodes each header value with \<open>v.encode("latin-1")\<close> when it is built.
  A value \<open>None\<close> has no such method, and a code point from 256 on cannot be encoded: the
  codec reports the first run of such code points, one of them by its escape and more
  than one by their positions. \<open>Inl\<close> is the \<open>str\<close> of the exception.
\<close>

definition escape :: "nat \<Rightarrow> string" where
  "escape c =
     (if c < 0x10000 then [CHR 0x5C] @ ''u'' @ show_hex 4 c else [CHR 0x5C] @ ''U'' @ show_hex 8 c)"

definition unicode_encode_error :: "unicode \<Rightarrow> string" where
  "unicode_encode_error t =
     (let start = length (takeWhile (\<lambda>c. c < 256) t);
          run = takeWhile (\<lambda>c. \<not> c < 256) (drop start t)
      in [CHR 0x27] @ ''latin-1'' @ [CHR 0x27] @ '' codec can'' @ [CHR 0x27] @ ''t encode ''
         @ (if length run = 1
            then ''character '' @ [CHR 0x27] @ escape (hd run) @ [CHR 0x27] @ '' in position ''
                 @ show_nat start
            else ''characters in position '' @ show_nat start @ ''-''
                 @ show_nat (start + length run - 1))
         @ '': ordinal not in range(256)'')"

definition none_encode_error :: string where
  "none_encode_error =
     [CHR 0x27] @ ''NoneType'' @ [CHR 0x27] @ '' object has no attribute ''
     @ [CHR 0x27] @ ''encode'' @ [CHR 0x27]"

fun encode_latin1 :: "unicode option \<Rightarrow> string + string" where
  "encode_latin1 None = Inl none_encode_error"
| "encode_latin1 (Some t) =
     (if list_all (\<lambda>c. c < 256) t then Inr (map char_of t) else Inl (unicode_encode_error t))"

declare encode_latin1.simps [simp del]

section \<open>The size formatter\<close>

text \<open>
  A number printed with exactly two fractional digits is read back by dropping the point
  and counting hundredths.
\<close>

definition read_2f :: "string \<Rightarrow> rat" where
  "read_2f s = of_nat (read_nat (filter (\<lambda>c. c \<noteq> CHR ''.'') s)) / 100"

text \<open>
  A Python number is an \<open>int\<close> or a \<open>float\<close>. A float is a double; a finite double is
  given by its exact value, a rational. Converting an \<open>int\<close> to a float rounds it to 53
  significant bits, a tie going to the even neighbour, and raises \<open>OverflowError\<close> when
  the rounded value is \<open>2 ^ 1024\<close> or more.
\<close>

datatype number = PyInt int | PyFloat rat

function bit_length :: "nat \<Rightarrow> nat" where
  "bit_length n = (if n = 0 then 0 else Suc (bit_length (n div 2)))"
  by pat_completeness auto
termination
  by (relation "measure (\<lambda>n. n)") auto

declare bit_length.simps [simp del]

definition round_53 :: "nat \<Rightarrow> nat" where
  "round_53 n =
     (if bit_length n \<le> 53 then n
      else let sh = bit_length n - 53; q = n div 2 ^ sh; r = n mod 2 ^ sh; half = 2 ^ (sh - 1)
           in (if r < half then q else if half < r then q + 1
               else if even q then q else q + 1) * 2 ^ sh)"

definition to_double :: "int \<Rightarrow> rat option" where
  "to_double i =
     (let m = round_53 (nat \<bar>i\<bar>)
      in if 2 ^ 1024 \<le> m then None else Some (of_int (sgn i * int m)))"

definition overflow_error :: string where
  "overflow_error = ''int too large to convert to float''"

fun to_float :: "number \<Rightarrow> string + rat" where
  "to_float (PyInt i) = (case to_double i of None \<Rightarrow> Inl overflow_error | Some x \<Rightarrow> Inr x)"
| "to_float (PyFloat x) = Inr x"

text \<open>\<open>size_bytes < 1024.0\<close>: an \<open>int\<close> and a float are compared by their exact values.\<close>

fun less_1024 :: "number \<Rightarrow> bool" where
  "less_1024 (PyInt i) = (i < 1024)"
| "less_1024 (PyFloat x) = (x < 1024)"

text \<open>
  Python's \<open>f"{x:.2f}"\<close> rounds the exact value of the double \<open>x\<close> to the nearest
  hundredth, a tie going to the even neighbour, and prints the sign of \<open>x\<close>.
\<close>

definition round_half_even :: "rat \<Rightarrow> int" where
  "round_half_even x =
     (let f = \<lfloor>x\<rfloor>; d = x - of_int f
      in if d < 1 / 2 then f else if 1 / 2 < d then f + 1
         else if even f then f else f + 1)"

definition fmt_2f :: "rat \<Rightarrow> string" where
  "fmt_2f x =
     (let h = nat (round_half_even (\<bar>x\<bar> * 100))
      in (if x < 0 then ''-'' else []) @ show_nat (h div 100) @ ''.''
         @ [digit (h mod 100 div 10), digit (h mod 10)])"

text \<open>
  The loop of \<open>format_size\<close> over the units B, KB, MB, GB, with TB after the loop. Both
  the formatting and the division \<open>size_bytes /= 1024.0\<close> convert an \<open>int\<close> to a float
  first. The division is by a power of two, of a double that is 1024 or more, and is
  exact.
\<close>

fun format_units :: "number \<Rightarrow> string list \<Rightarrow> string + string" where
  "format_units size_bytes [] =
     (case to_float size_bytes of
        Inl e \<Rightarrow> Inl e
      | Inr x \<Rightarrow> Inr (fmt_2f x @ '' TB''))"
| "format_units size_bytes (unit # units) =
     (if less_1024 size_bytes
      then (case to_float size_bytes of
              Inl e \<Rightarrow> Inl e
            | Inr x \<Rightarrow> Inr (fmt_2f x @ '' '' @ unit))
      else (case to_float size_bytes of
              Inl e \<Rightarrow> Inl e
            | Inr x \<Rightarrow> format_units (PyFloat (x / 1024)) units))"

text \<open>
  \<open>if not size_bytes\<close> holds of \<open>None\<close> and of the number zero.
\<close>

fun format_size :: "int option \<Rightarrow> string + string" where
  "format_size None = Inr ''N/A''"
| "format_size (Some size_bytes) =
     (if size_bytes = 0 then Inr ''N/A''
      else format_units (PyInt size_bytes) [''B'', ''KB'', ''MB'', ''GB''])"

section \<open>The extraction engine\<close>

text \<open>
  The engine \<open>yt_dlp\<close> is an external collaborator, so that it is a parameter of the model.
  Its \<open>extract_info\<close> takes the \<open>format\<close> entry of the options (absent in the options of
  \<open>get_video_info\<close>) and the url, and either raises, which is \<open>Inl\<close> of the \<open>str\<close> of the
  exception, or returns the info dictionary. An engine that returns no dictionary is
  counted with the failing ones: the first use of the result raises inside the same \<open>try\<close>.
  Values that are present are taken to have the type the source uses them at: strings,
  integer sizes and counts, a list of format dictionaries. The \<open>YoutubeDL\<close> object has no
  attribute \<open>YoutubeDL\<close> and no method \<open>stream\<close>.
\<close>

record format_entry =
  fmt_format_id :: "unicode field"
  fmt_ext :: "unicode field"
  fmt_resolution :: "unicode field"
  fmt_filesize :: "int field"
  fmt_format_note :: "unicode field"

record info_dict =
  info_id :: "unicode field"
  info_title :: "unicode field"
  info_thumbnail :: "unicode field"
  info_duration :: "int field"
  info_duration_string :: "unicode field"
  info_uploader :: "unicode field"
  info_formats :: "format_entry list field"
  info_webpage_url :: "unicode field"
  info_description :: "unicode field"
  info_view_count :: "int field"
  info_like_count :: "int field"
  info_ext :: "unicode field"

type_synonym chunk = string

record engine =
  extract_info :: "string option \<Rightarrow> string option \<Rightarrow> string + info_dict"

section \<open>The metadata service\<close>

record variant =
  v_format_id :: "unicode option"
  v_ext :: "unicode option"
  v_resolution :: "unicode option"
  v_filesize :: "int option"
  v_filesize_fmt :: string
  v_note :: "unicode option"

record metadata =
  md_id :: "unicode option"
  md_title :: "unicode option"
  md_thumbnail :: "unicode option"
  md_duration :: "int option"
  md_duration_string :: "unicode option"
  md_uploader :: "unicode option"
  md_formats :: "variant list"
  md_webpage_url :: "unicode option"
  md_description :: "unicode option"
  md_view_count :: "int option"
  md_like_count :: "int option"

text \<open>
  The dictionary appended for one format. Of its entries only \<open>format_size\<close> can raise.
\<close>

definition describe_format :: "format_entry \<Rightarrow> string + variant" where
  "describe_format f =
     (case format_size (get (fmt_filesize f)) of
        Inl e \<Rightarrow> Inl e
      | Inr formatted \<Rightarrow>
          Inr \<lparr>v_format_id = get (fmt_format_id f),
               v_ext = get (fmt_ext f),
               v_resolution = get_default (fmt_resolution f) (lit ''N/A''),
               v_filesize = get (fmt_filesize f),
               v_filesize_fmt = formatted,
               v_note = get_default (fmt_format_note f) (lit ''N/A'')\<rparr>)"

text \<open>The loop \<open>for f in info.get('formats', [])\<close>, appending to \<open>formats\<close>.\<close>

fun collect_formats :: "format_entry list \<Rightarrow> variant list \<Rightarrow> string + variant list" where
  "collect_formats [] formats = Inr formats"
| "collect_formats (f # fs) formats =
     (if truthy (get (fmt_ext f))
      then (case describe_format f of
              Inl e \<Rightarrow> Inl e
            | Inr v \<Rightarrow> collect_formats fs (formats @ [v]))
      else collect_formats fs formats)"

definition not_iterable :: string where
  "not_iterable = [CHR 0x27] @ ''NoneType'' @ [CHR 0x27] @ '' object is not iterable''"

text \<open>
  Every exception of the body, the engine's, the \<open>TypeError\<close> of iterating \<open>None\<close> or the
  \<open>OverflowError\<close> of the formatter, becomes an \<open>HTTPException\<close> with status 400.
\<close>

definition get_video_info :: "engine \<Rightarrow> string option \<Rightarrow> exn + metadata" where
  "get_video_info eng url =
     (case extract_info eng None url of
        Inl e \<Rightarrow> Inl (HTTPException 400 (''Error getting video info: '' @ e))
      | Inr info \<Rightarrow>
          (case get_default (info_formats info) [] of
             None \<Rightarrow> Inl (HTTPException 400 (''Error getting video info: '' @ not_iterable))
           | Some fs \<Rightarrow>
               (case collect_formats fs [] of
                  Inl e \<Rightarrow> Inl (HTTPException 400 (''Error getting video info: '' @ e))
                | Inr formats \<Rightarrow>
                    Inr \<lparr>md_id = get (info_id info),
                         md_title = get (info_title info),
                         md_thumbnail = get (info_thumbnail info),
                         md_duration = get (info_duration info),
                         md_duration_string = get (info_duration_string info),
                         md_uploader = get (info_uploader info),
                         md_formats = formats,
                         md_webpage_url = get (info_webpage_url info),
                         md_description = get (info_description info),
                         md_view_count = get (info_view_count info),
                         md_like_count = get (info_like_count info)\<rparr>)))"

section \<open>The streaming delivery pipeline\<close>

text \<open>
  The body of the response is the generator \<open>generate()\<close>. It has not run when the response
  is built. Its first \<open>next\<close> evaluates \<open>ydl.YoutubeDL(ydl_opts)\<close>, where \<open>ydl\<close> is the
  \<open>YoutubeDL\<close> object of the enclosing function: the attribute lookup raises
  \<open>AttributeError\<close>, so that the loop over \<open>ydl_instance.stream(url)\<close> is never reached
  and no chunk is ever yielded.
\<close>

datatype generator = Unstarted "string option" string | Finished

datatype step = Yield chunk | StopIteration | Raise string

definition attribute_error :: string where
  "attribute_error =
     [CHR 0x27] @ ''YoutubeDL'' @ [CHR 0x27] @ '' object has no attribute ''
     @ [CHR 0x27] @ ''YoutubeDL'' @ [CHR 0x27]"

fun gen_next :: "generator \<Rightarrow> step \<times> generator" where
  "gen_next (Unstarted fmt url) = (Raise attribute_error, Finished)"
| "gen_next Finished = (StopIteration, Finished)"

text \<open>
  Reading a generator to its end, as the server does with the body: the chunks it
  yields, and the exception that ends it, if one does.
\<close>

function drain :: "generator \<Rightarrow> chunk list \<times> string option" where
  "drain g =
     (case gen_next g of
        (Yield c, g') \<Rightarrow> (case drain g' of (cs, r) \<Rightarrow> (c # cs, r))
      | (StopIteration, g') \<Rightarrow> ([], None)
      | (Raise e, g') \<Rightarrow> ([], Some e))"
  by pat_completeness auto

termination drain
proof (relation "{}")
  show "wf {}"
    by simp
next
  fix g x g' c
  assume "(x, g') = gen_next g" and "x = Yield c"
  then have False
    by (cases g) simp_all
  then show "(g', g) \<in> {}" ..
qed

declare drain.simps [simp del]

record response =
  status_code :: nat
  media_type :: string
  headers :: "(string \<times> unicode option) list"
  body :: generator

text \<open>
  \<open>download_video\<close>. The options carry \<open>format_id or 'best'\<close>. Every exception raised
  before the response is returned becomes an \<open>HTTPException\<close> with status 400, and then
  there is no response: the engine's, the \<open>KeyError\<close> of \<open>info['title']\<close> and
  \<open>info['ext']\<close>, and what the encoding of the two header values raises when the
  response is built, the disposition first.
\<close>

definition download_video :: "engine \<Rightarrow> string \<Rightarrow> string option \<Rightarrow> exn + response" where
  "download_video eng url format_id =
     (let fmt = (if truthy format_id then format_id else Some ''best'');
          error = (\<lambda>e. Inl (HTTPException 400 (''Download error: '' @ e)))
      in case extract_info eng fmt (Some url) of
           Inl e \<Rightarrow> error e
         | Inr info \<Rightarrow>
             (case index ''title'' (info_title info) of
                Inl e \<Rightarrow> error e
              | Inr title \<Rightarrow>
                  (case index ''ext'' (info_ext info) of
                     Inl e \<Rightarrow> error e
                   | Inr ext \<Rightarrow>
                       (let filename = py_str title @ lit ''.'' @ py_str ext;
                            disposition = lit ''attachment; filename='' @ [34] @ filename @ [34];
                            video_title = get_default (info_title info) (lit ''video'')
                        in case encode_latin1 (Some disposition) of
                             Inl e \<Rightarrow> error e
                           | Inr raw_disposition \<Rightarrow>
                               (case encode_latin1 video_title of
                                  Inl e \<Rightarrow> error e
                                | Inr raw_title \<Rightarrow>
                                    Inr \<lparr>status_code = 200,
                                         media_type =
                                           (if get (info_ext info) = Some (lit ''mp4'')
                                            then ''video/mp4''
                                            else ''application/octet-stream''),
                                         headers =
                                           [(''Content-Disposition'', Some disposition),
                                            (''X-Video-Title'', video_title)],
                                         body = Unstarted fmt url\<rparr>)))))"

section \<open>The connection manager\<close>

text \<open>
  A websocket is a handle. The messages of the source are dictionaries of two shapes: the
  one with \<open>"type": "progress"\<close> carries \<open>message\<close> and \<open>progress\<close>, the one with
  \<open>"type": "complete"\<close> carries \<open>message\<close> and the \<open>title\<close>, \<open>duration\<close> and \<open>formats\<close> of its
  \<open>data\<close>.
\<close>

type_synonym websocket = nat

datatype message =
  ProgressMsg string nat
| CompleteMsg string "unicode option" "unicode option" nat


text \<open>
  What the code does to the outside is kept in a trace, in the order in which it happens:
  accepting a websocket, handing a message to a websocket's \<open>send_json\<close>, sleeping between
  two ticks, calling the engine for a url, printing. The registry and the trace are
  shared by all sessions of the process.
\<close>

datatype effect =
  Accept websocket
| SendJson websocket message
| Sleep
| ExtractInfo "string option"
| Print string

record world =
  active_connections :: "string \<rightharpoonup> websocket"
  trace :: "effect list"

definition init :: world where
  "init = \<lparr>active_connections = Map.empty, trace = []\<rparr>"

definition emit :: "effect \<Rightarrow> world \<Rightarrow> world" where
  "emit e s = s\<lparr>trace := trace s @ [e]\<rparr>"

definition connect :: "world \<Rightarrow> websocket \<Rightarrow> string \<Rightarrow> world" where
  "connect s websocket client_id =
     (emit (Accept websocket) s)
       \<lparr>active_connections := (active_connections s)(client_id \<mapsto> websocket)\<rparr>"

definition disconnect :: "world \<Rightarrow> string \<Rightarrow> world" where
  "disconnect s client_id =
     (case active_connections s client_id of
        Some websocket \<Rightarrow> s\<lparr>active_connections := (active_connections s)(client_id := None)\<rparr>
      | None \<Rightarrow> s)"

definition send_progress :: "world \<Rightarrow> string \<Rightarrow> message \<Rightarrow> world" where
  "send_progress s client_id message =
     (case active_connections s client_id of
        Some websocket \<Rightarrow> emit (SendJson websocket message) s
      | None \<Rightarrow> s)"

text \<open>The messages a websocket was handed, in order.\<close>

fun delivered :: "websocket \<Rightarrow> effect list \<Rightarrow> message list" where
  "delivered w [] = []"
| "delivered w (SendJson w' m # es) = (if w' = w then m # delivered w es else delivered w es)"
| "delivered w (e # es) = delivered w es"

section \<open>Other sessions\<close>

text \<open>
  Every session of the process runs the same endpoint, on a websocket of its own, and all
  of them share the registry. While one session is suspended at an \<open>await\<close>, the others
  run. What they do to the registry and to the websockets is a connect, a disconnect or
  a \<open>send_progress\<close>, each under the id of the session that does it; a run of such
  operations is what happens during one suspension.
\<close>

datatype other_op =
  OtherConnect websocket string
| OtherDisconnect string
| OtherSend string message

fun apply_other :: "world \<Rightarrow> other_op \<Rightarrow> world" where
  "apply_other s (OtherConnect w client_id) = connect s w client_id"
| "apply_other s (OtherDisconnect client_id) = disconnect s client_id"
| "apply_other s (OtherSend client_id m) = send_progress s client_id m"

definition others :: "other_op list \<Rightarrow> world \<Rightarrow> world" where
  "others ops s = foldl apply_other s ops"


section \<open>The websocket endpoint\<close>

record inbound =
  in_type :: "string field"
  in_url :: "string field"
  in_format :: "string field"

definition start_msg :: message where
  "start_msg = ProgressMsg ''Starting download...'' 0"

definition tick_msg :: "nat \<Rightarrow> message" where
  "tick_msg i = ProgressMsg (''Downloading... '' @ show_nat (i * 10) @ ''%'') (i * 10)"

text \<open>
  The handler of one download message is suspended 22 times: after the opening message
  is handed over, in the sleep before each tick, after each tick is handed over, and
  after the complete message is handed over. A schedule gives, for each suspension, what
  the other sessions do during it. Each \<open>send_progress\<close> looks the id up when it is
  called.
\<close>

datatype suspension = AfterStart | InSleep nat | AfterTick nat | AfterComplete

type_synonym schedule = "suspension \<Rightarrow> other_op list"

text \<open>The loop \<open>for i in range(1, 11)\<close>: sleep, then send the tick.\<close>

fun ticks :: "string \<Rightarrow> schedule \<Rightarrow> nat list \<Rightarrow> world \<Rightarrow> world" where
  "ticks client_id sched [] s = s"
| "ticks client_id sched (i # is) s =
     ticks client_id sched is
       (others (sched (AfterTick i))
          (send_progress (others (sched (InSleep i)) (emit Sleep s)) client_id (tick_msg i)))"

text \<open>
  The body of the branch \<open>data.get("type") == "download"\<close>. \<open>get_video_info\<close> does not
  await, so that nothing happens between the call of the engine and the lookup for the
  complete message. An \<open>HTTPException\<close> of \<open>get_video_info\<close> is not caught here; the
  world it leaves is the one reached so far.
\<close>

definition handle_download ::
  "engine \<Rightarrow> string \<Rightarrow> inbound \<Rightarrow> schedule \<Rightarrow> world \<Rightarrow> (exn + unit) \<times> world" where
  "handle_download eng client_id data sched s =
     (let url = get (in_url data);
          format_id = get (in_format data);
          s1 = others (sched AfterStart) (send_progress s client_id start_msg);
          s2 = ticks client_id sched [1..<11] s1;
          s3 = emit (ExtractInfo url) s2
      in case get_video_info eng url of
           Inl e \<Rightarrow> (Inl e, s3)
         | Inr info \<Rightarrow>
             (Inr (),
              others (sched AfterComplete)
                (send_progress s3 client_id
                   (CompleteMsg ''Download complete!'' (md_title info) (md_duration_string info)
                      (length (md_formats info))))))"




section \<open>The progress protocol of the specification\<close>

text \<open>
  The events and the state machine of the specification, to which the messages of the
  code are compared. The message that opens a retrieval is read as \<open>Started\<close>, any other
  progress message as \<open>Progress\<close> with its percentage, the complete message as
  \<open>Completed\<close> with the title and the variant count of its summary.
\<close>

datatype progress_event =
  Started
| Progress nat
| Completed "unicode option" nat
| Failed string

fun event_of :: "message \<Rightarrow> progress_event" where
  "event_of (ProgressMsg text p) =
     (if text = ''Starting download...'' then Started else Progress p)"
| "event_of (CompleteMsg text title duration n) = Completed title n"

datatype protocol_state = Idle | Begun | InProgress nat | Terminal

fun protocol_step :: "protocol_state \<Rightarrow> progress_event \<Rightarrow> protocol_state option" where
  "protocol_step Idle Started = Some Begun"
| "protocol_step Begun (Progress p) = (if p \<le> 100 then Some (InProgress p) else None)"
| "protocol_step (InProgress q) (Progress p) =
     (if q \<le> p \<and> p \<le> 100 then Some (InProgress p) else None)"
| "protocol_step Begun (Completed title n) = Some Terminal"
| "protocol_step (InProgress q) (Completed title n) = Some Terminal"
| "protocol_step Begun (Failed reason) = Some Terminal"
| "protocol_step (InProgress q) (Failed reason) = Some Terminal"
| "protocol_step st ev = None"

fun protocol_run :: "protocol_state \<Rightarrow> progress_event list \<Rightarrow> protocol_state option" where
  "protocol_run st [] = Some st"
| "protocol_run st (ev # evs) =
     (case protocol_step st ev of None \<Rightarrow> None | Some st' \<Rightarrow> protocol_run st' evs)"

fun is_terminal :: "progress_event \<Rightarrow> bool" where
  "is_terminal (Completed title n) = True"
| "is_terminal (Failed reason) = True"
| "is_terminal ev = False"

section \<open>The channel registry as a sequence of operations\<close>

datatype registry_op = Connect websocket string | Disconnect string

fun op_id :: "registry_op \<Rightarrow> string" where
  "op_id (Connect w client_id) = client_id"
| "op_id (Disconnect client_id) = client_id"

fun apply_op :: "world \<Rightarrow> registry_op \<Rightarrow> world" where
  "apply_op s (Connect w client_id) = connect s w client_id"
| "apply_op s (Disconnect client_id) = disconnect s client_id"

definition run_ops :: "registry_op list \<Rightarrow> world" where
  "run_ops ops = foldl apply_op init ops"

text \<open>
  The most recent operation on an id, as the specification words it: the last operation
  of the sequence that names the id, if there is one.
\<close>

fun most_recent :: "string \<Rightarrow> registry_op list \<Rightarrow> registry_op option" where
  "most_recent client_id [] = None"
| "most_recent client_id (x # xs) =
     (case most_recent client_id xs of
        Some y \<Rightarrow> Some y
      | None \<Rightarrow> (if op_id x = client_id then Some x else None))"

text \<open>The channel that must receive an event sent to the id, if any.\<close>

fun receiver :: "registry_op option \<Rightarrow> websocket option" where
  "receiver (Some (Connect w client_id)) = Some w"
| "receiver x = None"

section \<open>The unit bands of the size formatter\<close>

fun unit_name :: "nat \<Rightarrow> string" where
  "unit_name k = [''B'', ''KB'', ''MB'', ''GB'', ''TB''] ! k"

definition band :: "int \<Rightarrow> nat" where
  "band s = (if s < 1024 then 0 else if s < 1024 ^ 2 then 1 else if s < 1024 ^ 3 then 2
             else if s < 1024 ^ 4 then 3 else 4)"

section \<open>Sessions that do not disturb one another\<close>

text \<open>
  A websocket owns an id when it is registered under that id and under no other. An
  operation of another session is foreign to an id and its websocket when it names
  another id and, if it is a connect, registers another websocket: the other sessions
  use ids of their own. A schedule is quiet when all its operations are foreign.
\<close>

definition owns :: "world \<Rightarrow> websocket \<Rightarrow> string \<Rightarrow> bool" where
  "owns s w client_id = (\<forall>c. (active_connections s c = Some w) = (c = client_id))"

fun foreign :: "string \<Rightarrow> websocket \<Rightarrow> other_op \<Rightarrow> bool" where
  "foreign client_id w (OtherConnect w' c) = (c \<noteq> client_id \<and> w' \<noteq> w)"
| "foreign client_id w (OtherDisconnect c) = (c \<noteq> client_id)"
| "foreign client_id w (OtherSend c m) = (c \<noteq> client_id)"

definition quiet :: "string \<Rightarrow> websocket \<Rightarrow> schedule \<Rightarrow> bool" where
  "quiet client_id w sched = (\<forall>p. list_all (foreign client_id w) (sched p))"

section \<open>The messages of one tracked retrieval\<close>

text \<open>
  The messages a websocket was handed while one download message was handled, and the
  eleven progress messages written out.
\<close>

definition retrieval_messages ::
  "engine \<Rightarrow> string \<Rightarrow> inbound \<Rightarrow> schedule \<Rightarrow> world \<Rightarrow> websocket \<Rightarrow> message list" where
  "retrieval_messages eng client_id d sched s w =
     delivered w (drop (length (trace s)) (trace (snd (handle_download eng client_id d sched s))))"

definition eleven_progress :: "message list" where
  "eleven_progress =
     [ProgressMsg ''Starting download...'' 0,
      ProgressMsg ''Downloading... 10%'' 10, ProgressMsg ''Downloading... 20%'' 20,
      ProgressMsg ''Downloading... 30%'' 30, ProgressMsg ''Downloading... 40%'' 40,
      ProgressMsg ''Downloading... 50%'' 50, ProgressMsg ''Downloading... 60%'' 60,
      ProgressMsg ''Downloading... 70%'' 70, ProgressMsg ''Downloading... 80%'' 80,
      ProgressMsg ''Downloading... 90%'' 90, ProgressMsg ''Downloading... 100%'' 100]"

section \<open>Example engines, requests and schedules\<close>

text \<open>
  Three engines on which the statements below are tried: one that resolves the url
  \<open>good-locator\<close> to a clip with two upstream formats, the second of which has no
  extension, and fails on every other url; one that fails on every url; one that
  resolves every url to an info dictionary without a title. Four schedules: in the first
  the other sessions do nothing; in the second they work under an id of their own; in
  the third a session on websocket 2 connects under the id of the handler after the
  first tick; in the fourth another session sends its tick of 20 percent under the id
  of the handler after the opening message.
\<close>

definition eng_two :: engine where
  "eng_two = \<lparr>extract_info = (\<lambda>fmt url.
      if url = Some ''good-locator''
      then Inr
        \<lparr>info_id = Val (lit ''v1''), info_title = Val (lit ''Clip''), info_thumbnail = Missing,
         info_duration = Val 3, info_duration_string = Val (lit ''0:03''),
         info_uploader = Missing,
         info_formats = Val
           [\<lparr>fmt_format_id = Val (lit ''18''), fmt_ext = Val (lit ''mp4''),
             fmt_resolution = Missing, fmt_filesize = Val 1048576, fmt_format_note = Missing\<rparr>,
            \<lparr>fmt_format_id = Val (lit ''sb0''), fmt_ext = PyNone, fmt_resolution = Missing,
             fmt_filesize = PyNone, fmt_format_note = Missing\<rparr>],
         info_webpage_url = Missing, info_description = Missing, info_view_count = Missing,
         info_like_count = Missing, info_ext = Val (lit ''mp4'')\<rparr>
      else Inl ''Unsupported URL'')\<rparr>"

definition md_two :: metadata where
  "md_two =
     \<lparr>md_id = Some (lit ''v1''), md_title = Some (lit ''Clip''), md_thumbnail = None,
      md_duration = Some 3, md_duration_string = Some (lit ''0:03''), md_uploader = None,
      md_formats = [\<lparr>v_format_id = Some (lit ''18''), v_ext = Some (lit ''mp4''),
        v_resolution = Some (lit ''N/A''), v_filesize = Some 1048576,
        v_filesize_fmt = ''1.00 MB'', v_note = Some (lit ''N/A'')\<rparr>],
      md_webpage_url = None, md_description = None, md_view_count = None, md_like_count = None\<rparr>"

definition eng_bad :: engine where
  "eng_bad = \<lparr>extract_info = (\<lambda>fmt url. Inl ''Unsupported URL'')\<rparr>"

definition eng_untitled :: engine where
  "eng_untitled = \<lparr>extract_info = (\<lambda>fmt url. Inr
      \<lparr>info_id = Val (lit ''v2''), info_title = Missing, info_thumbnail = Missing,
       info_duration = Missing, info_duration_string = Missing, info_uploader = Missing,
       info_formats = Missing, info_webpage_url = Missing, info_description = Missing,
       info_view_count = Missing, info_like_count = Missing, info_ext = Missing\<rparr>)\<rparr>"

definition download_request :: "string \<Rightarrow> inbound" where
  "download_request url = \<lparr>in_type = Val ''download'', in_url = Val url, in_format = Missing\<rparr>"


definition nobody :: schedule where
  "nobody = (\<lambda>p. [])"

definition neighbours :: schedule where
  "neighbours =
     (\<lambda>p. if p = InSleep 2 then [OtherConnect 8 ''client-2'', OtherSend ''client-2'' start_msg]
          else if p = AfterTick 3 then [OtherDisconnect ''client-2'']
          else [])"


definition twin :: schedule where
  "twin = (\<lambda>p. if p = AfterStart then [OtherSend ''client-1'' (tick_msg 2)] else [])"

section \<open>Properties of the size formatter\<close>

lemma lt10_cases: "(d::nat) < 10 \<Longrightarrow> d = 0 \<or> d = 1 \<or> d = 2 \<or> d = 3 \<or> d = 4 \<or> d = 5 \<or> d = 6 \<or> d = 7 \<or> d = 8 \<or> d = 9"
  by arith

lemma digit_val_digit: "d < 10 \<Longrightarrow> digit_val (digit d) = d"
  using lt10_cases [of d] by (auto simp: digit_def digit_val_def)

lemma digit_not_point: "d < 10 \<Longrightarrow> digit d \<noteq> CHR ''.''"
  using lt10_cases [of d] by (auto simp: digit_def)

lemma hundredths_digits:
  "10 * (10 * (h div 100) + h mod 100 div 10) + h mod 10 = (h::nat)"
proof -
  define r where "r = h mod 100"
  have a: "h mod 10 = r mod 10"
    unfolding r_def by (simp add: mod_mod_cancel)
  have b: "10 * (r div 10) + r mod 10 = r"
    by simp
  have c: "100 * (h div 100) + r = h"
    unfolding r_def by simp
  have "10 * (10 * (h div 100) + r div 10) + r mod 10
          = 100 * (h div 100) + (10 * (r div 10) + r mod 10)"
    by simp
  also have "\<dots> = h"
    by (simp only: b c)
  finally show ?thesis
    by (simp only: a r_def)
qed

lemma read_nat_snoc: "read_nat (xs @ [c]) = 10 * read_nat xs + digit_val c"
  by (simp add: read_nat_def)

lemma read_show_nat: "read_nat (show_nat n) = n"
proof (induction n rule: show_nat.induct)
  case (1 n)
  show ?case
  proof (cases "n < 10")
    case True
    then show ?thesis
      by (simp add: show_nat.simps [of n] read_nat_def digit_val_digit)
  next
    case False
    with 1 have "read_nat (show_nat (n div 10)) = n div 10" by simp
    with False show ?thesis
      by (simp add: show_nat.simps [of n] read_nat_snoc digit_val_digit)
  qed
qed

lemma point_notin_show_nat: "CHR ''.'' \<notin> set (show_nat n)"
proof (induction n rule: show_nat.induct)
  case (1 n)
  show ?case
  proof (cases "n < 10")
    case True
    then show ?thesis
      using digit_not_point [of n] by (simp add: show_nat.simps [of n])
  next
    case False
    with 1 have "CHR ''.'' \<notin> set (show_nat (n div 10))" by simp
    with False show ?thesis
      using digit_not_point [of "n mod 10"] by (simp add: show_nat.simps [of n])
  qed
qed

lemma round_half_even_near: "\<bar>of_int (round_half_even y) - y\<bar> \<le> 1 / 2"
proof -
  have "of_int \<lfloor>y\<rfloor> \<le> y" "y < of_int \<lfloor>y\<rfloor> + 1" by linarith+
  then show ?thesis
    by (auto simp: round_half_even_def Let_def)
qed

lemma round_half_even_nonneg: "0 \<le> y \<Longrightarrow> 0 \<le> round_half_even y"
  by (auto simp: round_half_even_def Let_def)

text \<open>The string of a non-negative value, and the number of hundredths it shows.\<close>

lemma fmt_2f_hundredths:
  assumes "0 \<le> x"
  obtains h :: nat where
    "fmt_2f x = show_nat (h div 100) @ ''.'' @ [digit (h mod 100 div 10), digit (h mod 10)]"
    and "\<bar>of_nat h / 100 - x\<bar> \<le> 1 / 200"
proof -
  define h where "h = nat (round_half_even (x * 100))"
  have hx: "int h = round_half_even (x * 100)"
    using round_half_even_nonneg [of "x * 100"] assms by (simp add: h_def)
  have f: "fmt_2f x = show_nat (h div 100) @ ''.'' @ [digit (h mod 100 div 10), digit (h mod 10)]"
    using assms by (simp add: fmt_2f_def h_def Let_def)
  have "(of_nat h :: rat) = of_int (int h)" by simp
  then have "(of_nat h :: rat) = of_int (round_half_even (x * 100))" by (simp only: hx)
  moreover have "\<bar>of_int (round_half_even (x * 100)) - x * 100\<bar> \<le> 1 / 2"
    by (rule round_half_even_near)
  ultimately have "\<bar>of_nat h / 100 - x\<bar> \<le> 1 / 200"
    by (simp add: abs_le_iff field_simps)
  with f show ?thesis by (rule that)
qed

lemma read_2f_hundredths:
  "read_2f (show_nat (h div 100) @ ''.'' @ [digit (h mod 100 div 10), digit (h mod 10)])
     = of_nat h / 100"
proof -
  have d1: "h mod 100 div 10 < 10" by arith
  have d2: "h mod 10 < 10" by arith
  have "filter (\<lambda>c. c \<noteq> CHR ''.'')
          (show_nat (h div 100) @ ''.'' @ [digit (h mod 100 div 10), digit (h mod 10)])
          = (show_nat (h div 100) @ [digit (h mod 100 div 10)]) @ [digit (h mod 10)]"
    using point_notin_show_nat [of "h div 100"] digit_not_point [OF d1] digit_not_point [OF d2]
    by (auto simp: filter_id_conv)
  then have "read_nat (filter (\<lambda>c. c \<noteq> CHR ''.'')
          (show_nat (h div 100) @ ''.'' @ [digit (h mod 100 div 10), digit (h mod 10)]))
          = 10 * (10 * (h div 100) + h mod 100 div 10) + h mod 10"
    by (simp only: read_nat_snoc read_show_nat digit_val_digit [OF d1] digit_val_digit [OF d2])
  then show ?thesis
    by (simp only: read_2f_def hundredths_digits)
qed


lemma bit_length_le: "n < 2 ^ k \<Longrightarrow> bit_length n \<le> k"
proof (induction k arbitrary: n)
  case 0
  then show ?case by (simp add: bit_length.simps [of 0])
next
  case (Suc k)
  show ?case
  proof (cases "n = 0")
    case True
    then show ?thesis by (simp add: bit_length.simps [of 0])
  next
    case False
    from Suc.prems have "n div 2 < 2 ^ k" by simp
    from Suc.IH [OF this] False show ?thesis
      by (simp add: bit_length.simps [of n])
  qed
qed

text \<open>Rounding to 53 bits moves a number by at most half a unit of the last kept bit.\<close>

lemma round_53_near:
  assumes "bit_length n \<le> 53 + k"
  shows "\<bar>int (round_53 n) - int n\<bar> \<le> 2 ^ k div 2"
proof (cases "bit_length n \<le> 53")
  case True
  then show ?thesis by (simp add: round_53_def)
next
  case False
  define sh where "sh = bit_length n - 53"
  define q where "q = n div 2 ^ sh"
  define r where "r = n mod 2 ^ sh"
  define half :: nat where "half = 2 ^ (sh - 1)"
  from False have sh: "0 < sh" by (simp add: sh_def)
  then have two: "(2::nat) ^ sh = 2 * half"
    by (cases sh) (simp_all add: half_def)
  have "n = q * 2 ^ sh + r"
    unfolding q_def r_def by (rule div_mult_mod_eq [symmetric])
  then have n: "int n = int q * (2 * int half) + int r"
    by (simp only: two) simp
  have "r < 2 ^ sh"
    unfolding r_def by (rule mod_less_divisor) simp
  then have r: "int r < 2 * int half"
    by (simp only: two)
  from assms sh have "sh \<le> k" by (simp add: sh_def)
  with sh obtain j where k: "k = Suc j" and "sh - 1 \<le> j"
    by (cases k) auto
  then have "(2::nat) ^ (sh - 1) \<le> 2 ^ j"
    by (intro power_increasing) simp_all
  then have "int half \<le> 2 ^ j"
    unfolding half_def by (metis of_nat_le_iff of_nat_numeral of_nat_power)
  moreover have "(2::int) ^ k div 2 = 2 ^ j"
    by (simp add: k)
  ultimately have half: "int half \<le> 2 ^ k div 2"
    by simp
  have "round_53 n =
      (if n mod 2 ^ sh < 2 ^ (sh - 1) then n div 2 ^ sh
       else if 2 ^ (sh - 1) < n mod 2 ^ sh then n div 2 ^ sh + 1
       else if even (n div 2 ^ sh) then n div 2 ^ sh else n div 2 ^ sh + 1) * 2 ^ sh"
    by (simp only: round_53_def Let_def sh_def False if_False)
  then have "round_53 n =
      (if r < half then q else if half < r then q + 1 else if even q then q else q + 1) * 2 ^ sh"
    by (simp only: q_def [symmetric] r_def [symmetric] half_def [symmetric])
  then have rd: "round_53 n =
      (if r < half then q else if half < r then q + 1 else if even q then q else q + 1) * (2 * half)"
    by (simp only: two)
  consider "r < half" | "half < r" | "r = half" "even q" | "r = half" "odd q"
    by (cases "r < half"; cases "half < r"; cases "even q") auto
  then have "\<bar>int (round_53 n) - int n\<bar> \<le> int half"
  proof cases
    case 1
    then have "int (round_53 n) = int q * (2 * int half)"
      by (simp add: rd)
    with n 1 show ?thesis by simp
  next
    case 2
    then have "int (round_53 n) = (int q + 1) * (2 * int half)"
      by (simp add: rd algebra_simps)
    then have "int (round_53 n) - int n = 2 * int half - int r"
      by (simp add: n algebra_simps)
    with r 2 show ?thesis by simp
  next
    case 3
    then have "int (round_53 n) = int q * (2 * int half)"
      by (simp add: rd)
    with n 3 show ?thesis by simp
  next
    case 4
    then have "int (round_53 n) = (int q + 1) * (2 * int half)"
      by (simp add: rd algebra_simps)
    then have "int (round_53 n) - int n = 2 * int half - int r"
      by (simp add: n algebra_simps)
    with 4 show ?thesis by simp
  qed
  with half show ?thesis by linarith
qed

lemma round_53_exact: "n < 2 ^ 53 \<Longrightarrow> round_53 n = n"
  using bit_length_le [of n 53] by (simp add: round_53_def)

lemma to_double_pos:
  assumes "0 < s" and "round_53 (nat \<bar>s\<bar>) < 2 ^ 1024"
  shows "to_double s = Some (of_int (int (round_53 (nat \<bar>s\<bar>))))"
proof -
  from assms(2) have a: "\<not> 2 ^ 1024 \<le> round_53 (nat \<bar>s\<bar>)"
    by (simp only: not_le)
  from assms(1) have b: "sgn s = 1"
    by simp
  show ?thesis
    unfolding to_double_def Let_def by (simp only: a b if_False mult_1)
qed

lemma below_limit:
  assumes "int m < 2 ^ k" and "k \<le> 1024"
  shows "m < 2 ^ 1024"
proof -
  have "(2::int) ^ k \<le> 2 ^ 1024"
    using assms(2) by (intro power_increasing) simp_all
  with assms(1) have "int m < 2 ^ 1024"
    by (rule less_le_trans)
  then have "int m < int (2 ^ 1024)"
    by (simp only: of_nat_power of_nat_numeral)
  then show ?thesis
    by (simp only: of_nat_less_iff)
qed

lemma to_double_exact:
  assumes "0 < s" and "s < 2 ^ 53"
  shows "to_double s = Some (of_int s)"
proof -
  from assms have "nat \<bar>s\<bar> < 2 ^ 53"
    by (simp add: nat_less_iff)
  then have r: "round_53 (nat \<bar>s\<bar>) = nat \<bar>s\<bar>"
    by (rule round_53_exact)
  from assms have i: "int (nat \<bar>s\<bar>) = s"
    by simp
  with assms have "int (round_53 (nat \<bar>s\<bar>)) < 2 ^ 53"
    by (simp only: r i)
  then have "round_53 (nat \<bar>s\<bar>) < 2 ^ 1024"
    by (rule below_limit) simp
  from to_double_pos [OF assms(1) this] show ?thesis
    by (simp only: r i)
qed

lemma to_double_near:
  assumes "0 < s" and "s < 2 ^ 86"
  obtains x where "to_double s = Some x" and "\<bar>x - of_int s\<bar> \<le> 2 ^ 32"
proof -
  define n where "n = nat \<bar>s\<bar>"
  from assms have n: "int n = s"
    by (simp add: n_def)
  from assms have "n < 2 ^ 86"
    by (simp add: n_def nat_less_iff)
  then have "bit_length n \<le> 53 + 33"
    using bit_length_le [of n 86] by simp
  then have "\<bar>int (round_53 n) - int n\<bar> \<le> 2 ^ 33 div 2"
    by (rule round_53_near)
  then have near: "\<bar>int (round_53 n) - s\<bar> \<le> 2 ^ 32"
    by (simp add: n)
  with assms have "int (round_53 n) < 2 ^ 87"
    by simp
  then have "round_53 n < 2 ^ 1024"
    by (rule below_limit) simp
  then have "to_double s = Some (of_int (int (round_53 n)))"
    unfolding n_def by (rule to_double_pos [OF assms(1)])
  moreover have "\<bar>(of_int (int (round_53 n)) :: rat) - of_int s\<bar> \<le> 2 ^ 32"
  proof -
    have "\<bar>(of_int (int (round_53 n)) :: rat) - of_int s\<bar> = of_int \<bar>int (round_53 n) - s\<bar>"
      by simp
    also from near have "\<dots> \<le> of_int (2 ^ 32)"
      by (simp only: of_int_le_iff)
    finally show ?thesis
      by simp
  qed
  ultimately show ?thesis
    by (rule that)
qed

lemma rat_lt_1024: "(of_int s :: rat) < 1024 \<longleftrightarrow> s < 1024"
  using of_int_less_iff [of s 1024, where ?'a = rat] by simp

lemma rat_lt_1024_2: "(of_int s :: rat) / 1024 < 1024 \<longleftrightarrow> s < 1024 ^ 2"
  using of_int_less_iff [of s "1024 ^ 2", where ?'a = rat] by (simp add: pos_divide_less_eq)

lemma rat_lt_1024_3: "(of_int s :: rat) / 1024 / 1024 < 1024 \<longleftrightarrow> s < 1024 ^ 3"
  using of_int_less_iff [of s "1024 ^ 3", where ?'a = rat] by (simp add: pos_divide_less_eq)

lemma rat_lt_1024_4: "(of_int s :: rat) / 1024 / 1024 / 1024 < 1024 \<longleftrightarrow> s < 1024 ^ 4"
  using of_int_less_iff [of s "1024 ^ 4", where ?'a = rat] by (simp add: pos_divide_less_eq)

lemmas rat_lt_1024s = rat_lt_1024 rat_lt_1024_2 rat_lt_1024_3 rat_lt_1024_4

lemma format_size_exact:
  assumes "0 < s" and "s < 2 ^ 53"
  shows "format_size (Some s)
    = Inr (fmt_2f (of_int s / 1024 ^ band s) @ '' '' @ unit_name (band s))"
proof -
  note d = to_double_exact [OF assms]
  from assms have ne: "s \<noteq> 0" by simp
  consider "s < 1024" | "\<not> s < 1024" "s < 1024 ^ 2" | "\<not> s < 1024" "\<not> s < 1024 ^ 2" "s < 1024 ^ 3"
    | "\<not> s < 1024" "\<not> s < 1024 ^ 2" "\<not> s < 1024 ^ 3" "s < 1024 ^ 4"
    | "\<not> s < 1024" "\<not> s < 1024 ^ 2" "\<not> s < 1024 ^ 3" "\<not> s < 1024 ^ 4"
    by blast
  then show ?thesis
  proof cases
    case 1
    then show ?thesis using ne by (simp add: d rat_lt_1024s band_def)
  next
    case 2
    then show ?thesis using ne by (simp add: d rat_lt_1024s band_def)
  next
    case 3
    then show ?thesis using ne by (simp add: d rat_lt_1024s band_def)
  next
    case 4
    then show ?thesis using ne by (simp add: d rat_lt_1024s band_def)
  next
    case 5
    then show ?thesis using ne by (simp add: d rat_lt_1024s band_def)
  qed
qed

lemma format_size_rounded:
  assumes "2 ^ 53 \<le> s" and "s < 2 ^ 86"
  obtains x where "format_size (Some s) = Inr (fmt_2f (x / 1024 ^ 4) @ '' TB'')"
    and "\<bar>x - of_int s\<bar> \<le> 2 ^ 32" and "0 \<le> x"
proof -
  from assms have pos: "0 < s" by simp
  from to_double_near [OF pos assms(2)] obtain x where
    d: "to_double s = Some x" and near: "\<bar>x - of_int s\<bar> \<le> 2 ^ 32"
    by blast
  from assms(1) have "(2 :: rat) ^ 53 \<le> of_int s"
    by (metis of_int_le_iff of_int_numeral of_int_power)
  with near have big: "(2 :: rat) ^ 40 \<le> x"
    by (simp add: abs_le_iff)
  then have big': "1099511627776 \<le> x"
    by simp
  have a: "\<not> x / 1024 < 1024" "\<not> x / 1024 / 1024 < 1024"
    "\<not> x / 1024 / 1024 / 1024 < 1024"
    using big' by (auto simp: pos_divide_less_eq)
  from assms(1) have b: "\<not> s < 1024" "s \<noteq> 0"
    by simp_all
  from big' have c: "\<not> x < 1099511627776" "\<not> x < 1073741824" "\<not> x < 1048576"
    by simp_all
  have "format_size (Some s) = Inr (fmt_2f (x / 1024 / 1024 / 1024 / 1024) @ '' TB'')"
    by (simp add: d a b c)
  moreover have "x / 1024 / 1024 / 1024 / 1024 = x / 1024 ^ 4"
    by simp
  ultimately have "format_size (Some s) = Inr (fmt_2f (x / 1024 ^ 4) @ '' TB'')"
    by (simp only:)
  moreover from big have "0 \<le> x"
    by simp
  ultimately show ?thesis
    using near by (intro that)
qed

lemma format_units_space:
  "format_units n units = Inr str \<Longrightarrow> CHR '' '' \<in> set str"
  by (induction units arbitrary: n) (auto split: sum.splits if_splits)

lemma format_size_NA_iff: "(format_size x = Inr ''N/A'') = (x = None \<or> x = Some 0)"
proof (cases x)
  case None
  then show ?thesis by simp
next
  case (Some s)
  show ?thesis
  proof (cases "s = 0")
    case True
    with Some show ?thesis by simp
  next
    case False
    have "format_size (Some s) \<noteq> Inr ''N/A''"
    proof
      assume "format_size (Some s) = Inr ''N/A''"
      with False have "format_units (PyInt s) [''B'', ''KB'', ''MB'', ''GB''] = Inr ''N/A''"
        by simp
      then have "CHR '' '' \<in> set ''N/A''"
        by (rule format_units_space)
      then show False by simp
    qed
    with Some False show ?thesis by simp
  qed
qed

lemma format_size_hundredths:
  assumes pos: "0 < s" and below: "s < 2 ^ 86"
  shows "\<exists>h :: nat.
           format_size (Some s)
             = Inr (show_nat (h div 100) @ ''.'' @ [digit (h mod 100 div 10), digit (h mod 10)]
                    @ '' '' @ unit_name (band s))
           \<and> read_2f (show_nat (h div 100) @ ''.'' @ [digit (h mod 100 div 10), digit (h mod 10)])
               = of_nat h / 100
           \<and> \<bar>of_nat h / 100 - (of_int s :: rat) / 1024 ^ band s\<bar> < 1 / 100"
proof (cases "s < 2 ^ 53")
  case True
  from pos have "(0 :: rat) \<le> of_int s / 1024 ^ band s" by simp
  then obtain h :: nat where
    f: "fmt_2f (of_int s / 1024 ^ band s)
          = show_nat (h div 100) @ ''.'' @ [digit (h mod 100 div 10), digit (h mod 10)]"
    and near: "\<bar>of_nat h / 100 - (of_int s :: rat) / 1024 ^ band s\<bar> \<le> 1 / 200"
    by (rule fmt_2f_hundredths)
  have "format_size (Some s)
      = Inr (show_nat (h div 100) @ ''.'' @ [digit (h mod 100 div 10), digit (h mod 10)]
        @ '' '' @ unit_name (band s))"
    unfolding format_size_exact [OF pos True] f
    by (simp only: append_assoc append_Cons append_Nil)
  moreover from near have "\<bar>of_nat h / 100 - (of_int s :: rat) / 1024 ^ band s\<bar> < 1 / 100"
    by linarith
  moreover note read_2f_hundredths [of h]
  ultimately show ?thesis
    by (intro exI [of _ h] conjI)
next
  case False
  then have big: "2 ^ 53 \<le> s" by simp
  then have b: "band s = 4"
    by (simp add: band_def)
  from format_size_rounded [OF big below] obtain x where
    fs: "format_size (Some s) = Inr (fmt_2f (x / 1024 ^ 4) @ '' TB'')"
    and xs: "\<bar>x - of_int s\<bar> \<le> 2 ^ 32" and x: "0 \<le> x"
    by blast
  from x have "0 \<le> x / 1024 ^ 4" by simp
  then obtain h :: nat where
    f: "fmt_2f (x / 1024 ^ 4)
          = show_nat (h div 100) @ ''.'' @ [digit (h mod 100 div 10), digit (h mod 10)]"
    and near: "\<bar>of_nat h / 100 - x / 1024 ^ 4\<bar> \<le> 1 / 200"
    by (rule fmt_2f_hundredths)
  have "format_size (Some s)
      = Inr (show_nat (h div 100) @ ''.'' @ [digit (h mod 100 div 10), digit (h mod 10)]
        @ '' '' @ unit_name (band s))"
    unfolding fs f b by simp
  moreover have "\<bar>of_nat h / 100 - (of_int s :: rat) / 1024 ^ band s\<bar> < 1 / 100"
  proof -
    have "\<bar>x / 1024 ^ 4 - of_int s / 1024 ^ 4\<bar> = \<bar>x - of_int s\<bar> / 1024 ^ 4"
      by (simp add: diff_divide_distrib [symmetric])
    also from xs have "\<dots> \<le> 2 ^ 32 / 1024 ^ 4"
      by (intro divide_right_mono) simp_all
    also have "\<dots> = (1 / 256 :: rat)"
      by simp
    finally have "\<bar>x / 1024 ^ 4 - of_int s / 1024 ^ 4\<bar> \<le> 1 / 256" .
    with near show ?thesis
      unfolding b by linarith
  qed
  moreover note read_2f_hundredths [of h]
  ultimately show ?thesis
    by (intro exI [of _ h] conjI)
qed

lemma format_size_mebibyte: "format_size (Some 1048576) = Inr ''1.00 MB''"
proof -
  have "format_size (Some 1048576) = Inr (fmt_2f (of_int 1048576 / 1024 ^ band 1048576)
      @ '' '' @ unit_name (band 1048576))"
    by (rule format_size_exact) simp_all
  then show ?thesis
    by (simp add: band_def fmt_2f_def round_half_even_def show_nat.simps digit_def)
qed

lemma bit_length_eq: "2 ^ k \<le> n \<Longrightarrow> n < 2 ^ Suc k \<Longrightarrow> bit_length n = Suc k"
proof (induction k arbitrary: n)
  case 0
  then have "n = 1" by simp
  then show ?case
    by (simp add: bit_length.simps [of "Suc 0"] bit_length.simps [of 0])
next
  case (Suc k)
  from Suc.prems have "2 ^ k \<le> n div 2" "n div 2 < 2 ^ Suc k" "n \<noteq> 0"
    by auto
  with Suc.IH [of "n div 2"] show ?case
    by (simp add: bit_length.simps [of n])
qed

lemma to_double_rounds: "to_double (2 ^ 90 + 2 ^ 36) = Some (2 ^ 90)"
proof -
  have "bit_length (2 ^ 90 + 2 ^ 36) = Suc 90"
    by (rule bit_length_eq) simp_all
  then have "round_53 (2 ^ 90 + 2 ^ 36) = 2 ^ 90"
    by (simp add: round_53_def)
  moreover have "nat \<bar>2 ^ 90 + 2 ^ 36 :: int\<bar> = 2 ^ 90 + 2 ^ 36"
    by simp
  ultimately show ?thesis
    by (simp add: to_double_def)
qed

lemma format_size_rounds:
  "format_size (Some (2 ^ 90 + 2 ^ 36)) = Inr ''1125899906842624.00 TB''"
proof -
  have "fmt_2f 1125899906842624 = ''1125899906842624.00''"
    by (simp add: fmt_2f_def round_half_even_def show_nat.simps digit_def)
  moreover from to_double_rounds
  have "to_double 1237940039285380343618600960 = Some 1237940039285380274899124224"
    by simp
  ultimately show ?thesis
    by simp
qed

text \<open>
  Claim C7, as stated, at the size zero and at a large size. For a size that is present
  and is zero the formatter answers with the placeholder of a missing size. The size
  \<open>2 ^ 90 + 2 ^ 36\<close> is rounded when it becomes a double, and the number printed is
  0.0625 away from the size in the unit TB.
\<close>

theorem format_size_counterexample:
  "format_size (Some 0) = Inr ''N/A''
   \<and> format_size (Some (2 ^ 90 + 2 ^ 36)) = Inr ''1125899906842624.00 TB''
   \<and> (of_int (2 ^ 90 + 2 ^ 36) :: rat) / 1024 ^ 4 - 1125899906842624 = 1 / 16"
  using format_size_rounds by simp

text \<open>
  Claim C7, amended. The formatter returns \<open>N/A\<close> exactly when the size is missing or is
  zero. For every size \<open>s\<close> with \<open>0 < s < 2 ^ 86\<close> it returns a number with two fractional
  digits, a space and the unit of the band of \<open>s\<close> (B below 1024, then KB, MB, GB, and TB
  from \<open>1024 ^ 4\<close> on), and the number, \<open>h\<close> hundredths, is within 0.01 of \<open>s / 1024 ^ k\<close>
  for the band \<open>k\<close>. The size 1048576 is formatted as \<open>1.00 MB\<close>.
\<close>

theorem format_size_spec:
  "((format_size x = Inr ''N/A'') = (x = None \<or> x = Some 0))
   \<and> (0 < s \<and> s < 2 ^ 86 \<longrightarrow>
        (\<exists>h :: nat.
           format_size (Some s)
             = Inr (show_nat (h div 100) @ ''.'' @ [digit (h mod 100 div 10), digit (h mod 10)]
                    @ '' '' @ unit_name (band s))
           \<and> read_2f (show_nat (h div 100) @ ''.'' @ [digit (h mod 100 div 10), digit (h mod 10)])
               = of_nat h / 100
           \<and> \<bar>of_nat h / 100 - (of_int s :: rat) / 1024 ^ band s\<bar> < 1 / 100))
   \<and> format_size (Some 1048576) = Inr ''1.00 MB''"
  using format_size_NA_iff [of x] format_size_hundredths [of s] format_size_mebibyte
  by (intro conjI impI) simp_all

theorem format_size_spec_witness:
  "(0 :: int) < 2 ^ 60 \<and> (2 :: int) ^ 60 < 2 ^ 86
   \<and> (\<exists>h :: nat.
        format_size (Some (2 ^ 60))
          = Inr (show_nat (h div 100) @ ''.'' @ [digit (h mod 100 div 10), digit (h mod 10)]
                 @ '' '' @ unit_name (band (2 ^ 60)))
        \<and> read_2f (show_nat (h div 100) @ ''.'' @ [digit (h mod 100 div 10), digit (h mod 10)])
            = of_nat h / 100
        \<and> \<bar>of_nat h / 100 - (of_int (2 ^ 60) :: rat) / 1024 ^ band (2 ^ 60)\<bar> < 1 / 100)"
proof -
  have pos: "(0 :: int) < 2 ^ 60 \<and> (2 :: int) ^ 60 < 2 ^ 86"
    by simp
  from format_size_spec [of "Some 0" "2 ^ 60"] have
    "(0 :: int) < 2 ^ 60 \<and> (2 :: int) ^ 60 < 2 ^ 86 \<longrightarrow>
     (\<exists>h :: nat.
        format_size (Some (2 ^ 60))
          = Inr (show_nat (h div 100) @ ''.'' @ [digit (h mod 100 div 10), digit (h mod 10)]
                 @ '' '' @ unit_name (band (2 ^ 60)))
        \<and> read_2f (show_nat (h div 100) @ ''.'' @ [digit (h mod 100 div 10), digit (h mod 10)])
            = of_nat h / 100
        \<and> \<bar>of_nat h / 100 - (of_int (2 ^ 60) :: rat) / 1024 ^ band (2 ^ 60)\<bar> < 1 / 100)"
    by (rule conjunct1 [OF conjunct2])
  from mp [OF this pos] pos show ?thesis
    by (intro conjI) simp_all
qed

section \<open>Properties of the channel registry\<close>

lemma connect_active:
  "active_connections (connect s w client_id) = (active_connections s)(client_id \<mapsto> w)"
  by (simp add: connect_def emit_def)

lemma disconnect_active:
  "active_connections (disconnect s client_id) = (active_connections s)(client_id := None)"
  by (cases "active_connections s client_id") (auto simp: disconnect_def)

text \<open>
  Claim C1, as stated, on the registry that holds websocket 1 under \<open>client-1\<close>: a second
  connect with the same id is not rejected, and it puts websocket 2 in the place of
  websocket 1.
\<close>

theorem connect_duplicate_counterexample:
  "active_connections (connect (connect init 1 ''client-1'') 2 ''client-1'') ''client-1'' = Some 2
   \<and> active_connections (connect init 1 ''client-1'') ''client-1'' = Some 1"
  by (simp add: connect_active)

text \<open>
  Claim C1, amended. A connect with an id, registered already or not, is accepted and
  registers the new websocket under the id in the place of any earlier one; the
  registration of every other id is unchanged.
\<close>

theorem connect_replaces:
  "active_connections (connect s w client_id) client_id = Some w
   \<and> (\<forall>other. other \<noteq> client_id \<longrightarrow>
          active_connections (connect s w client_id) other = active_connections s other)
   \<and> trace (connect s w client_id) = trace s @ [Accept w]"
  by (simp add: connect_def emit_def)

theorem connect_replaces_witness:
  "active_connections (connect init 1 ''a'') ''a'' = Some 1
   \<and> active_connections (connect (connect init 1 ''a'') 2 ''a'') ''a'' = Some 2
   \<and> ''b'' \<noteq> ''a''
   \<and> active_connections (connect (connect init 1 ''a'') 2 ''a'') ''b''
       = active_connections (connect init 1 ''a'') ''b''"
  using connect_replaces [of "connect init 1 ''a''" 2 "''a''"] connect_replaces [of init 1 "''a''"]
  by simp

lemma apply_op_active:
  "active_connections (apply_op s x) client_id =
     (if op_id x = client_id then receiver (Some x) else active_connections s client_id)"
  by (cases x) (auto simp: connect_active disconnect_active)

lemma foldl_apply_op_active:
  "active_connections (foldl apply_op s ops) client_id =
     (case most_recent client_id ops of
        None \<Rightarrow> active_connections s client_id
      | Some x \<Rightarrow> receiver (Some x))"
proof (induction ops arbitrary: s)
  case Nil
  show ?case by simp
next
  case (Cons x xs)
  show ?case
    by (simp add: Cons.IH apply_op_active split: option.splits)
qed

lemma run_ops_active:
  "active_connections (run_ops ops) client_id = receiver (most_recent client_id ops)"
  by (cases "most_recent client_id ops")
     (simp_all add: run_ops_def foldl_apply_op_active init_def)

text \<open>
  Claim C2. After any sequence of connects and disconnects, \<open>send_progress\<close> with an id
  hands the event to a websocket exactly when the most recent operation on the id was a
  connect, and then to the websocket of that connect. When the most recent operation on
  the id was a disconnect, or no operation named the id, it changes nothing; the function
  has no failing branch for an unknown id.
\<close>

theorem send_progress_most_recent:
  "send_progress (run_ops ops) client_id e =
     (case most_recent client_id ops of
        Some (Connect w c) \<Rightarrow> (run_ops ops)\<lparr>trace := trace (run_ops ops) @ [SendJson w e]\<rparr>
      | Some (Disconnect c) \<Rightarrow> run_ops ops
      | None \<Rightarrow> run_ops ops)"
proof (cases "most_recent client_id ops")
  case None
  with run_ops_active [of ops client_id] show ?thesis
    by (simp add: send_progress_def)
next
  case (Some x)
  with run_ops_active [of ops client_id] show ?thesis
    by (cases x) (simp_all add: send_progress_def emit_def)
qed

theorem send_progress_most_recent_witness:
  "trace (send_progress (run_ops [Connect 7 ''a'', Disconnect ''a'', Connect 8 ''a'', Connect 9 ''b''])
      ''a'' start_msg)
     = trace (run_ops [Connect 7 ''a'', Disconnect ''a'', Connect 8 ''a'', Connect 9 ''b''])
       @ [SendJson 8 start_msg]
   \<and> send_progress (run_ops [Connect 7 ''a'', Disconnect ''a'']) ''a'' start_msg
     = run_ops [Connect 7 ''a'', Disconnect ''a'']"
  using send_progress_most_recent
          [of "[Connect 7 ''a'', Disconnect ''a'', Connect 8 ''a'', Connect 9 ''b'']" "''a''" start_msg]
        send_progress_most_recent [of "[Connect 7 ''a'', Disconnect ''a'']" "''a''" start_msg]
  by simp

section \<open>Properties of the metadata service\<close>

lemma describe_format_ext: "describe_format f = Inr v \<Longrightarrow> v_ext v = get (fmt_ext f)"
  by (auto simp: describe_format_def split: sum.splits)

lemma collect_formats_eq:
  "collect_formats fs acc = Inr vs \<Longrightarrow>
     map Inr vs = map Inr acc @ map describe_format (filter (\<lambda>f. truthy (get (fmt_ext f))) fs)"
proof (induction fs arbitrary: acc)
  case Nil
  then show ?case by simp
next
  case (Cons f fs)
  show ?case
  proof (cases "truthy (get (fmt_ext f))")
    case False
    with Cons show ?thesis by simp
  next
    case True
    with Cons.prems obtain v where v: "describe_format f = Inr v"
      and rest: "collect_formats fs (acc @ [v]) = Inr vs"
      by (auto split: sum.splits)
    from Cons.IH [OF rest] True v show ?thesis by simp
  qed
qed

lemma truthy_ext: "truthy x \<Longrightarrow> \<exists>e. x = Some e \<and> e \<noteq> []"
  by (cases x) simp_all

lemma get_video_info_formats:
  assumes "get_video_info eng url = Inr md"
  obtains info fs where "extract_info eng None url = Inr info"
    and "get_default (info_formats info) [] = Some fs"
    and "map Inr (md_formats md)
           = map describe_format (filter (\<lambda>f. truthy (get (fmt_ext f))) fs)"
    and "md_title md = get (info_title info)"
proof -
  from assms obtain info where i: "extract_info eng None url = Inr info"
    by (auto simp: get_video_info_def split: sum.splits)
  from assms i obtain fs where fs: "get_default (info_formats info) [] = Some fs"
    by (auto simp: get_video_info_def split: option.splits)
  from assms i fs obtain vs where vs: "collect_formats fs [] = Inr vs"
    by (auto simp: get_video_info_def split: sum.splits)
  from assms i fs vs have "md_formats md = vs" "md_title md = get (info_title info)"
    by (auto simp: get_video_info_def)
  with collect_formats_eq [OF vs] i fs show ?thesis
    by (intro that [of info fs]) simp_all
qed

text \<open>
  Claim C9. Every variant of a returned metadata has an extension that is not empty: the
  variants are the descriptions of exactly those upstream formats whose \<open>ext\<close> is truthy,
  in their order, so that there are at most as many variants as upstream formats, and
  fewer exactly when some upstream format has a missing or falsy \<open>ext\<close>.
\<close>

theorem get_video_info_ext_nonempty:
  assumes "get_video_info eng url = Inr md"
  shows "(\<forall>v \<in> set (md_formats md). \<exists>e. v_ext v = Some e \<and> e \<noteq> [])
    \<and> (\<exists>info fs. extract_info eng None url = Inr info
          \<and> get_default (info_formats info) [] = Some fs
          \<and> map Inr (md_formats md)
              = map describe_format (filter (\<lambda>f. truthy (get (fmt_ext f))) fs)
          \<and> length (md_formats md) \<le> length fs
          \<and> (length (md_formats md) < length fs
                \<longleftrightarrow> (\<exists>f \<in> set fs. \<not> truthy (get (fmt_ext f)))))"
proof -
  from assms obtain info fs where ex: "extract_info eng None url = Inr info"
    and fs: "get_default (info_formats info) [] = Some fs"
    and md: "map Inr (md_formats md)
               = map describe_format (filter (\<lambda>f. truthy (get (fmt_ext f))) fs)"
    by (rule get_video_info_formats)
  let ?kept = "filter (\<lambda>f. truthy (get (fmt_ext f))) fs"
  from md have len: "length (md_formats md) = length ?kept"
    by (metis length_map)
  have a: "\<forall>v \<in> set (md_formats md). \<exists>e. v_ext v = Some e \<and> e \<noteq> []"
  proof
    fix v
    assume "v \<in> set (md_formats md)"
    then have "Inr v \<in> Inr ` set (md_formats md)"
      by (rule imageI)
    also have "Inr ` set (md_formats md) = set (map describe_format ?kept)"
      unfolding md [symmetric] by simp
    finally have "Inr v \<in> set (map describe_format ?kept)" .
    then obtain f where f: "describe_format f = Inr v" "truthy (get (fmt_ext f))"
      by auto
    from describe_format_ext [OF f(1)] truthy_ext [OF f(2)]
    show "\<exists>e. v_ext v = Some e \<and> e \<noteq> []"
      by simp
  qed
  have b: "length (md_formats md) \<le> length fs"
    by (simp add: len)
  have c: "length (md_formats md) < length fs \<longleftrightarrow> (\<exists>f \<in> set fs. \<not> truthy (get (fmt_ext f)))"
    unfolding len by (metis filter_id_conv length_filter_less less_irrefl)
  from a ex fs md b c show ?thesis
    by blast
qed

lemma lit_simps:
  "lit [] = []"
  "lit (c # cs) = of_char c # lit cs"
  by (simp_all add: lit_def)

lemma get_video_info_eng_two:
  "get_video_info eng_two (Some ''good-locator'') = Inr md_two"
  by (simp add: get_video_info_def eng_two_def describe_format_def format_size_mebibyte
      md_two_def lit_def del: format_size.simps)

theorem get_video_info_ext_nonempty_witness:
  "get_video_info eng_two (Some ''good-locator'') = Inr md_two
   \<and> map v_ext (md_formats md_two) = [Some (lit ''mp4'')]
   \<and> length (md_formats md_two) \<le> 2"
  using get_video_info_ext_nonempty [OF get_video_info_eng_two] get_video_info_eng_two
  by (simp add: md_two_def)

section \<open>Properties of the streaming delivery pipeline\<close>

text \<open>
  Claim C5. When the engine's \<open>extract_info\<close> fails for the request, \<open>download_video\<close>
  fails with an \<open>HTTPException\<close> of status 400 whose detail carries the reason of the
  engine. The result is the exception and not a response: no header and no body exists.
\<close>

theorem download_video_extraction_fails:
  assumes "extract_info eng (if truthy format_id then format_id else Some ''best'') (Some url) = Inl e"
  shows "download_video eng url format_id = Inl (HTTPException 400 (''Download error: '' @ e))"
  using assms by (simp add: download_video_def Let_def)

theorem download_video_extraction_fails_witness:
  "extract_info eng_bad (if truthy None then None else Some ''best'') (Some ''bad-locator'')
     = Inl ''Unsupported URL''
   \<and> download_video eng_bad ''bad-locator'' None
     = Inl (HTTPException 400 ''Download error: Unsupported URL'')"
proof -
  have h: "extract_info eng_bad (if truthy None then None else Some ''best'') (Some ''bad-locator'')
     = Inl ''Unsupported URL''"
    by (simp add: eng_bad_def)
  from download_video_extraction_fails [OF h] h show ?thesis
    by simp
qed

lemma encode_latin1_ok:
  "encode_latin1 x = Inr raw \<Longrightarrow> \<exists>t. x = Some t \<and> list_all (\<lambda>c. c < 256) t"
  by (cases x) (simp_all add: encode_latin1.simps split: if_splits)

lemma encode_latin1_lit: "encode_latin1 (Some (lit s)) = Inr (map char_of (lit s))"
  by (simp add: encode_latin1.simps lit_def list_all_iff)

text \<open>
  Claim C6. A response that \<open>download_video\<close> returns is framed from the info dictionary of
  the engine: the disposition header is \<open>attachment\<close> with the file name \<open>{title}.{ext}\<close>
  between double quotes, the auxiliary header carries the title, and the media type is
  \<open>video/mp4\<close> when the extension is \<open>mp4\<close> and \<open>application/octet-stream\<close> otherwise. A
  response is returned only for a title that is present and, with the extension, can be
  encoded.
\<close>

theorem download_video_framing:
  assumes "download_video eng url format_id = Inr resp"
  shows "\<exists>info title ext.
     extract_info eng (if truthy format_id then format_id else Some ''best'') (Some url) = Inr info
     \<and> index ''title'' (info_title info) = Inr title
     \<and> index ''ext'' (info_ext info) = Inr ext
     \<and> status_code resp = 200
     \<and> headers resp =
         [(''Content-Disposition'',
           Some (lit ''attachment; filename='' @ [34] @ py_str title @ lit ''.'' @ py_str ext
                 @ [34])),
          (''X-Video-Title'', title)]
     \<and> media_type resp
         = (if ext = Some (lit ''mp4'') then ''video/mp4'' else ''application/octet-stream'')
     \<and> title \<noteq> None
     \<and> list_all (\<lambda>c. c < 256) (py_str title @ py_str ext)"
proof -
  let ?fmt = "if truthy format_id then format_id else Some ''best''"
  from assms obtain info where i: "extract_info eng ?fmt (Some url) = Inr info"
    by (auto simp: download_video_def Let_def split: sum.splits)
  from assms i obtain title where t: "index ''title'' (info_title info) = Inr title"
    by (auto simp: download_video_def Let_def split: sum.splits)
  from assms i t obtain ext where x: "index ''ext'' (info_ext info) = Inr ext"
    by (auto simp: download_video_def Let_def split: sum.splits)
  from t have t': "get_default (info_title info) (lit ''video'') = title"
    by (cases "info_title info") auto
  from x have x': "get (info_ext info) = ext"
    by (cases "info_ext info") auto
  let ?disp = "lit ''attachment; filename='' @ 34 # py_str title @ lit ''.'' @ py_str ext @ [34]"
  from assms i t x obtain rd where rd: "encode_latin1 (Some ?disp) = Inr rd"
    by (auto simp: download_video_def Let_def split: sum.splits)
  from assms i t x rd obtain rt where rt: "encode_latin1 title = Inr rt"
    by (auto simp: download_video_def Let_def t' split: sum.splits)
  from encode_latin1_ok [OF rt] have tn: "title \<noteq> None"
    by auto
  from encode_latin1_ok [OF rd] have "list_all (\<lambda>c. c < 256) ?disp"
    by simp
  then have enc: "list_all (\<lambda>c. c < 256) (py_str title @ py_str ext)"
    by simp
  from assms have r: "resp = \<lparr>status_code = 200,
       media_type = (if ext = Some (lit ''mp4'') then ''video/mp4'' else ''application/octet-stream''),
       headers = [(''Content-Disposition'', Some ?disp), (''X-Video-Title'', title)],
       body = Unstarted ?fmt url\<rparr>"
    by (simp add: download_video_def Let_def i t x t' x' rd rt)
  show ?thesis
    by (intro exI [of _ info] exI [of _ title] exI [of _ ext] conjI i t x tn enc)
       (simp_all add: r)
qed

lemma download_video_eng_two:
  "download_video eng_two ''good-locator'' (Some ''best'') = Inr
     \<lparr>status_code = 200, media_type = ''video/mp4'',
      headers = [(''Content-Disposition'',
                  Some (lit ''attachment; filename='' @ [34] @ lit ''Clip.mp4'' @ [34])),
                 (''X-Video-Title'', Some (lit ''Clip''))],
      body = Unstarted (Some ''best'') ''good-locator''\<rparr>"
  by (simp add: download_video_def eng_two_def lit_def Let_def encode_latin1.simps)

theorem download_video_framing_witness:
  "download_video eng_two ''good-locator'' (Some ''best'') = Inr
     \<lparr>status_code = 200, media_type = ''video/mp4'',
      headers = [(''Content-Disposition'',
                  Some (lit ''attachment; filename='' @ [34] @ lit ''Clip.mp4'' @ [34])),
                 (''X-Video-Title'', Some (lit ''Clip''))],
      body = Unstarted (Some ''best'') ''good-locator''\<rparr>
   \<and> (\<exists>info title ext.
     extract_info eng_two (if truthy (Some ''best'') then Some ''best'' else Some ''best'')
       (Some ''good-locator'') = Inr info
     \<and> index ''title'' (info_title info) = Inr title
     \<and> index ''ext'' (info_ext info) = Inr ext
     \<and> media_type
          \<lparr>status_code = 200, media_type = ''video/mp4'',
           headers = [(''Content-Disposition'',
                  Some (lit ''attachment; filename='' @ [34] @ lit ''Clip.mp4'' @ [34])),
                 (''X-Video-Title'', Some (lit ''Clip''))],
           body = Unstarted (Some ''best'') ''good-locator''\<rparr>
        = (if ext = Some (lit ''mp4'') then ''video/mp4'' else ''application/octet-stream''))"
  using download_video_framing [OF download_video_eng_two] download_video_eng_two
  by blast

lemma drain_unstarted: "drain (Unstarted fmt url) = ([], Some attribute_error)"
  by (subst drain.simps) simp

text \<open>
  Claim C8, at the request for \<open>good-locator\<close> on the engine that resolves it: the response
  is returned, and the first \<open>next\<close> of its body raises \<open>AttributeError\<close>. Read to its end
  the body yields no chunk at all, whatever the upstream holds.
\<close>

theorem generate_raises:
  "download_video eng_two ''good-locator'' (Some ''best'') = Inr
     \<lparr>status_code = 200, media_type = ''video/mp4'',
      headers = [(''Content-Disposition'',
                  Some (lit ''attachment; filename='' @ [34] @ lit ''Clip.mp4'' @ [34])),
                 (''X-Video-Title'', Some (lit ''Clip''))],
      body = Unstarted (Some ''best'') ''good-locator''\<rparr>
   \<and> gen_next (Unstarted (Some ''best'') ''good-locator'') = (Raise attribute_error, Finished)
   \<and> drain (Unstarted (Some ''best'') ''good-locator'') = ([], Some attribute_error)"
  using download_video_eng_two drain_unstarted by simp

section \<open>Properties of the websocket endpoint\<close>

lemma emit_simps [simp]:
  "trace (emit e s) = trace s @ [e]"
  "active_connections (emit e s) = active_connections s"
  by (simp_all add: emit_def)

lemma delivered_append: "delivered w (xs @ ys) = delivered w xs @ delivered w ys"
  by (induction w xs rule: delivered.induct) simp_all

lemma owns_lookup: "owns s w client_id \<Longrightarrow> active_connections s client_id = Some w"
  by (simp add: owns_def)

lemma owns_emit [simp]: "owns (emit e s) w client_id = owns s w client_id"
  by (simp add: owns_def)

lemma send_progress_own:
  "owns s w client_id \<Longrightarrow> send_progress s client_id m = emit (SendJson w m) s"
  by (simp add: send_progress_def owns_lookup)

text \<open>What one operation of another session adds to the trace.\<close>

lemma apply_other_trace:
  "\<exists>xs. trace (apply_other s x) = trace s @ xs
     \<and> (\<forall>u. ExtractInfo u \<notin> set xs)
     \<and> (\<forall>w' m. SendJson w' m \<in> set xs \<longrightarrow> (\<exists>c. x = OtherSend c m))"
proof (cases x)
  case (OtherConnect w' c)
  then show ?thesis by (simp add: connect_def)
next
  case (OtherDisconnect c)
  then show ?thesis
    by (cases "active_connections s c") (simp_all add: disconnect_def)
next
  case (OtherSend c m)
  then show ?thesis
    by (cases "active_connections s c") (simp_all add: send_progress_def)
qed

lemma others_trace:
  "\<exists>xs. trace (others ops s) = trace s @ xs
     \<and> (\<forall>u. ExtractInfo u \<notin> set xs)
     \<and> (\<forall>w' m. SendJson w' m \<in> set xs \<longrightarrow> (\<exists>c. OtherSend c m \<in> set ops))"
proof (induction ops arbitrary: s)
  case Nil
  show ?case by (simp add: others_def)
next
  case (Cons x ops)
  from apply_other_trace [of s x] obtain xs where
    xs: "trace (apply_other s x) = trace s @ xs" "\<forall>u. ExtractInfo u \<notin> set xs"
      "\<forall>w' m. SendJson w' m \<in> set xs \<longrightarrow> (\<exists>c. x = OtherSend c m)"
    by blast
  from Cons.IH [of "apply_other s x"] obtain ys where
    ys: "trace (others ops (apply_other s x)) = trace (apply_other s x) @ ys"
      "\<forall>u. ExtractInfo u \<notin> set ys"
      "\<forall>w' m. SendJson w' m \<in> set ys \<longrightarrow> (\<exists>c. OtherSend c m \<in> set ops)"
    by blast
  have o: "others (x # ops) s = others ops (apply_other s x)"
    by (simp add: others_def)
  have "trace (others (x # ops) s) = trace s @ (xs @ ys)"
    by (simp add: o xs ys)
  moreover have "\<forall>u. ExtractInfo u \<notin> set (xs @ ys)"
    using xs(2) ys(2) by simp
  moreover have "\<forall>w' m. SendJson w' m \<in> set (xs @ ys) \<longrightarrow> (\<exists>c. OtherSend c m \<in> set (x # ops))"
    using xs(3) ys(3) by (simp add: all_conj_distrib) blast
  ultimately show ?case
    by blast
qed

text \<open>An operation that is foreign to an id and its websocket leaves both alone.\<close>

lemma apply_other_foreign:
  assumes "owns s w client_id" and "foreign client_id w x"
  shows "owns (apply_other s x) w client_id
    \<and> delivered w (trace (apply_other s x)) = delivered w (trace s)"
proof (cases x)
  case (OtherConnect w' c)
  with assms show ?thesis
    by (auto simp: owns_def connect_def delivered_append)
next
  case (OtherDisconnect c)
  with assms show ?thesis
    by (cases "active_connections s c") (auto simp: owns_def disconnect_def)
next
  case (OtherSend c m)
  show ?thesis
  proof (cases "active_connections s c")
    case None
    with OtherSend assms show ?thesis
      by (simp add: send_progress_def)
  next
    case (Some w')
    with OtherSend assms have "w' \<noteq> w"
      by (auto simp: owns_def)
    with OtherSend Some assms show ?thesis
      by (simp add: send_progress_def delivered_append)
  qed
qed

lemma others_foreign:
  assumes "owns s w client_id" and "list_all (foreign client_id w) ops"
  shows "owns (others ops s) w client_id
    \<and> delivered w (trace (others ops s)) = delivered w (trace s)"
  using assms
proof (induction ops arbitrary: s)
  case Nil
  then show ?case by (simp add: others_def)
next
  case (Cons x ops)
  from Cons.prems have f: "foreign client_id w x" and r: "list_all (foreign client_id w) ops"
    by simp_all
  note a = apply_other_foreign [OF Cons.prems(1) f]
  from Cons.IH [OF conjunct1 [OF a] r] a show ?case
    by (simp add: others_def)
qed

lemma others_quiet:
  assumes "owns s w client_id" and "list_all (foreign client_id w) ops"
  shows "\<exists>xs. trace (others ops s) = trace s @ xs \<and> delivered w xs = []
     \<and> (\<forall>u. ExtractInfo u \<notin> set xs) \<and> owns (others ops s) w client_id"
proof -
  from others_trace [of ops s] obtain xs where
    xs: "trace (others ops s) = trace s @ xs" "\<forall>u. ExtractInfo u \<notin> set xs"
    by blast
  from others_foreign [OF assms] have o: "owns (others ops s) w client_id"
    and "delivered w (trace (others ops s)) = delivered w (trace s)"
    by simp_all
  then have "delivered w xs = []"
    by (simp add: xs(1) delivered_append)
  with xs o show ?thesis
    by blast
qed



lemma tick_round_quiet:
  assumes "owns s w client_id" and "quiet client_id w sched"
  shows "\<exists>xs. trace (others (sched (AfterTick i))
            (send_progress (others (sched (InSleep i)) (emit Sleep s)) client_id (tick_msg i)))
          = trace s @ xs
     \<and> delivered w xs = [tick_msg i]
     \<and> (\<forall>u. ExtractInfo u \<notin> set xs)
     \<and> owns (others (sched (AfterTick i))
            (send_progress (others (sched (InSleep i)) (emit Sleep s)) client_id (tick_msg i)))
          w client_id"
proof -
  let ?a = "emit Sleep s"
  let ?b = "others (sched (InSleep i)) ?a"
  let ?c = "send_progress ?b client_id (tick_msg i)"
  let ?d = "others (sched (AfterTick i)) ?c"
  from assms(2) have q: "list_all (foreign client_id w) (sched p)" for p
    by (simp add: quiet_def)
  from assms(1) have "owns ?a w client_id"
    by simp
  from others_quiet [OF this q] obtain xs where
    xs: "trace ?b = trace ?a @ xs" "delivered w xs = []" "\<forall>u. ExtractInfo u \<notin> set xs"
    and b: "owns ?b w client_id"
    by blast
  have c: "?c = emit (SendJson w (tick_msg i)) ?b"
    using b by (rule send_progress_own)
  with b have "owns ?c w client_id"
    by simp
  from others_quiet [OF this q] obtain zs where
    zs: "trace ?d = trace ?c @ zs" "delivered w zs = []" "\<forall>u. ExtractInfo u \<notin> set zs"
    and d: "owns ?d w client_id"
    by blast
  have "trace ?c = trace ?b @ [SendJson w (tick_msg i)]"
    unfolding c by simp
  then have "trace ?d = trace s @ (Sleep # xs @ SendJson w (tick_msg i) # zs)"
    by (simp add: zs(1) xs(1))
  moreover have "delivered w (Sleep # xs @ SendJson w (tick_msg i) # zs) = [tick_msg i]"
    by (simp add: delivered_append xs(2) zs(2))
  moreover have "\<forall>u. ExtractInfo u \<notin> set (Sleep # xs @ SendJson w (tick_msg i) # zs)"
    using xs(3) zs(3) by simp
  ultimately show ?thesis
    using d by blast
qed


lemma ticks_quiet:
  assumes "owns s w client_id" and "quiet client_id w sched"
  shows "\<exists>xs. trace (ticks client_id sched is s) = trace s @ xs
     \<and> delivered w xs = map tick_msg is
     \<and> (\<forall>u. ExtractInfo u \<notin> set xs)
     \<and> owns (ticks client_id sched is s) w client_id"
  using assms(1)
proof (induction "is" arbitrary: s)
  case Nil
  then show ?case by simp
next
  case (Cons i "is")
  let ?d = "others (sched (AfterTick i))
     (send_progress (others (sched (InSleep i)) (emit Sleep s)) client_id (tick_msg i))"
  from tick_round_quiet [OF Cons.prems assms(2), of i] obtain xs where
    xs: "trace ?d = trace s @ xs" "delivered w xs = [tick_msg i]" "\<forall>u. ExtractInfo u \<notin> set xs"
    and d: "owns ?d w client_id"
    by blast
  from Cons.IH [OF d] obtain ys where
    ys: "trace (ticks client_id sched is ?d) = trace ?d @ ys"
      "delivered w ys = map tick_msg is" "\<forall>u. ExtractInfo u \<notin> set ys"
    and e: "owns (ticks client_id sched is ?d) w client_id"
    by blast
  have "trace (ticks client_id sched (i # is) s) = trace s @ (xs @ ys)"
    by (simp add: ys(1) xs(1))
  moreover have "delivered w (xs @ ys) = map tick_msg (i # is)"
    by (simp add: delivered_append xs(2) ys(2))
  moreover have "\<forall>u. ExtractInfo u \<notin> set (xs @ ys)"
    using xs(3) ys(3) by simp
  moreover from e have "owns (ticks client_id sched (i # is) s) w client_id"
    by simp
  ultimately show ?case
    by blast
qed

lemma upt_1_11: "[1..<11] = [1, 2, 3, 4, 5, 6, 7, 8, 9, 10 :: nat]"
  by (simp add: upt_rec)

lemma eleven_progress_eq: "start_msg # map tick_msg [1..<11] = eleven_progress"
  unfolding upt_1_11
  by (simp add: start_msg_def tick_msg_def eleven_progress_def show_nat.simps digit_def)





text \<open>
  The handler under a quiet schedule: the websocket that owns the id is handed the eleven
  progress messages before the engine is called, and the complete message after it.
\<close>

lemma handle_download_quiet:
  assumes "owns s w client_id" and "quiet client_id w sched"
  shows "\<exists>xs rest.
      trace (snd (handle_download eng client_id d sched s))
        = trace s @ xs @ ExtractInfo (get (in_url d)) # rest
      \<and> delivered w xs = eleven_progress
      \<and> (\<forall>u. ExtractInfo u \<notin> set xs)
      \<and> delivered w rest =
          (case get_video_info eng (get (in_url d)) of
             Inl e \<Rightarrow> []
           | Inr md \<Rightarrow> [CompleteMsg ''Download complete!'' (md_title md) (md_duration_string md)
                          (length (md_formats md))])
      \<and> ((\<exists>e. get_video_info eng (get (in_url d)) = Inl e) \<longrightarrow> rest = [])"
proof -
  define s0 where "s0 = send_progress s client_id start_msg"
  define s1 where "s1 = others (sched AfterStart) s0"
  define s2 where "s2 = ticks client_id sched [1..<11] s1"
  define s3 where "s3 = emit (ExtractInfo (get (in_url d))) s2"
  from assms(2) have q: "list_all (foreign client_id w) (sched p)" for p
    by (simp add: quiet_def)
  have e0: "s0 = emit (SendJson w start_msg) s"
    unfolding s0_def using assms(1) by (rule send_progress_own)
  with assms(1) have "owns s0 w client_id"
    by simp
  from others_quiet [OF this q, of AfterStart] obtain xs where
    xs: "trace s1 = trace s0 @ xs" "delivered w xs = []" "\<forall>u. ExtractInfo u \<notin> set xs"
    and o1: "owns s1 w client_id"
    unfolding s1_def by blast
  from ticks_quiet [OF o1 assms(2), of "[1..<11]"] obtain ys where
    ys: "trace s2 = trace s1 @ ys" "delivered w ys = map tick_msg [1..<11]"
      "\<forall>u. ExtractInfo u \<notin> set ys"
    and o2: "owns s2 w client_id"
    unfolding s2_def by blast
  let ?pre = "SendJson w start_msg # xs @ ys"
  have t2: "trace s2 = trace s @ ?pre"
    by (simp add: ys(1) xs(1) e0)
  have "delivered w ?pre = start_msg # map tick_msg [1..<11]"
    by (simp only: delivered.simps delivered_append xs(2) ys(2) refl if_True append_Nil)
  then have d: "delivered w ?pre = eleven_progress"
    by (simp only: eleven_progress_eq)
  have n: "\<forall>u. ExtractInfo u \<notin> set ?pre"
    using xs(3) ys(3) by simp
  from o2 have o3: "owns s3 w client_id"
    by (simp add: s3_def)
  have t3: "trace s3 = trace s @ ?pre @ [ExtractInfo (get (in_url d))]"
    by (simp add: s3_def t2)
  show ?thesis
  proof (cases "get_video_info eng (get (in_url d))")
    case (Inl e)
    have "handle_download eng client_id d sched s = (Inl e, s3)"
      by (simp only: handle_download_def Let_def Inl sum.case s0_def s1_def s2_def s3_def)
    then have "trace (snd (handle_download eng client_id d sched s))
        = trace s @ ?pre @ ExtractInfo (get (in_url d)) # []"
      by (simp add: t3)
    with d n Inl show ?thesis
      by (intro exI [of _ ?pre] exI [of _ "[]"]) simp
  next
    case (Inr md)
    let ?c = "CompleteMsg ''Download complete!'' (md_title md) (md_duration_string md)
                (length (md_formats md))"
    define s4 where "s4 = send_progress s3 client_id ?c"
    have "handle_download eng client_id d sched s = (Inr (), others (sched AfterComplete) s4)"
      by (simp only: handle_download_def Let_def Inr sum.case s0_def s1_def s2_def s3_def s4_def)
    moreover have e4: "s4 = emit (SendJson w ?c) s3"
      unfolding s4_def using o3 by (rule send_progress_own)
    with o3 have "owns s4 w client_id"
      by simp
    from others_quiet [OF this q, of AfterComplete] obtain zs where
      zs: "trace (others (sched AfterComplete) s4) = trace s4 @ zs" "delivered w zs = []"
      by blast
    ultimately have "trace (snd (handle_download eng client_id d sched s))
        = trace s @ ?pre @ ExtractInfo (get (in_url d)) # (SendJson w ?c # zs)"
      by (simp add: zs(1) e4 t3)
    moreover have "delivered w (SendJson w ?c # zs) = [?c]"
      by (simp add: zs(2))
    ultimately show ?thesis
      using d n Inr by (intro exI [of _ ?pre] exI [of _ "SendJson w ?c # zs"]) simp
  qed
qed

lemma retrieval_messages_quiet:
  assumes "owns s w client_id" and "quiet client_id w sched"
  shows "retrieval_messages eng client_id d sched s w =
     eleven_progress @
     (case get_video_info eng (get (in_url d)) of
        Inl e \<Rightarrow> []
      | Inr md \<Rightarrow> [CompleteMsg ''Download complete!'' (md_title md) (md_duration_string md)
                     (length (md_formats md))])"
proof -
  from handle_download_quiet [OF assms, of eng d] obtain xs rest where
    t: "trace (snd (handle_download eng client_id d sched s))
        = trace s @ xs @ ExtractInfo (get (in_url d)) # rest"
    and x: "delivered w xs = eleven_progress"
    and r: "delivered w rest =
          (case get_video_info eng (get (in_url d)) of
             Inl e \<Rightarrow> []
           | Inr md \<Rightarrow> [CompleteMsg ''Download complete!'' (md_title md) (md_duration_string md)
                          (length (md_formats md))])"
    by blast
  show ?thesis
    unfolding retrieval_messages_def t by (simp add: delivered_append x r)
qed

lemma events_eleven_progress:
  "map event_of eleven_progress = Started # map Progress [10, 20, 30, 40, 50, 60, 70, 80, 90, 100]"
  by (simp add: eleven_progress_def)

lemma protocol_run_eleven:
  "protocol_run Idle (map event_of eleven_progress) = Some (InProgress 100)"
  by (simp add: events_eleven_progress)

lemma protocol_run_complete:
  "protocol_run Idle (map event_of eleven_progress @ [Completed title n]) = Some Terminal"
  by (simp add: events_eleven_progress)

lemma terminal_eleven: "filter is_terminal (map event_of eleven_progress) = []"
  by (simp add: events_eleven_progress)

lemma completed_eleven: "Completed title n \<notin> set (map event_of eleven_progress)"
  by (simp add: events_eleven_progress)

lemma protocol_run_append:
  "protocol_run st (xs @ ys) =
     (case protocol_run st xs of None \<Rightarrow> None | Some st' \<Rightarrow> protocol_run st' ys)"
  by (induction xs arbitrary: st) (simp_all split: option.splits)

lemma protocol_run_take:
  assumes "protocol_run st xs \<noteq> None"
  shows "protocol_run st (take n xs) \<noteq> None"
proof (cases "protocol_run st (take n xs)")
  case None
  have "protocol_run st xs = protocol_run st (take n xs @ drop n xs)"
    by simp
  also have "\<dots> = None"
    by (simp only: protocol_run_append None option.case)
  finally show ?thesis
    using assms by simp
next
  case (Some st')
  then show ?thesis
    by simp
qed

lemma owns_connect: "owns (connect init w client_id) w client_id"
  by (simp add: owns_def connect_def init_def)

lemma quiet_nobody: "quiet client_id w nobody"
  by (simp add: quiet_def nobody_def)

lemma quiet_neighbours: "quiet ''client-1'' 7 neighbours"
  by (simp add: quiet_def neighbours_def)

lemma get_video_info_untitled:
  "get_video_info eng_untitled url = Inr
     \<lparr>md_id = Some (lit ''v2''), md_title = None, md_thumbnail = None, md_duration = None,
      md_duration_string = None, md_uploader = None, md_formats = [],
      md_webpage_url = None, md_description = None, md_view_count = None, md_like_count = None\<rparr>"
  by (simp add: get_video_info_def eng_untitled_def)

lemma get_video_info_bad:
  "get_video_info eng_bad url = Inl (HTTPException 400 ''Error getting video info: Unsupported URL'')"
  by (simp add: get_video_info_def eng_bad_def)

text \<open>The handler under the schedules that disturb it.\<close>

lemma retrieval_twin:
  "retrieval_messages eng_bad ''client-1'' (download_request ''bad-locator'') twin
     (connect (connect init 1 ''client-1'') 2 ''client-1'') 2
   = ProgressMsg ''Starting download...'' 0 # tick_msg 2 # map tick_msg [1..<11]"
proof -
  let ?s = "connect (connect init 1 ''client-1'') 2 ''client-1''"
  have o: "owns ?s 2 ''client-1''"
    by (simp add: owns_def connect_def init_def)
  define s1 where "s1 = others (twin AfterStart) (send_progress ?s ''client-1'' start_msg)"
  have s1: "s1 = ?s\<lparr>trace := trace ?s @ [SendJson 2 start_msg, SendJson 2 (tick_msg 2)]\<rparr>"
    by (simp add: s1_def twin_def others_def send_progress_own [OF o]
        send_progress_def emit_def connect_def)
  then have o1: "owns s1 2 ''client-1''"
    using o by (simp add: owns_def)
  have q: "quiet ''client-1'' 2 (\<lambda>p. case p of AfterStart \<Rightarrow> [] | _ \<Rightarrow> twin p)"
    by (simp add: quiet_def twin_def split: suspension.splits)
  have t: "ticks client_id sched is s = ticks client_id (\<lambda>p. case p of AfterStart \<Rightarrow> [] | _ \<Rightarrow> sched p) is s"
    for client_id sched "is" s
    by (induction "is" arbitrary: s) simp_all
  from ticks_quiet [OF o1 q, of "[1..<11]"] obtain ys where
    ys: "trace (ticks ''client-1'' twin [1..<11] s1) = trace s1 @ ys"
      "delivered 2 ys = map tick_msg [1..<11]"
    unfolding t [symmetric] by blast
  have "handle_download eng_bad ''client-1'' (download_request ''bad-locator'') twin ?s
      = (Inl (HTTPException 400 ''Error getting video info: Unsupported URL''),
         emit (ExtractInfo (get (in_url (download_request ''bad-locator''))))
           (ticks ''client-1'' twin [1..<11] s1))"
    by (simp only: handle_download_def Let_def get_video_info_bad sum.case s1_def)
  then have "trace (snd (handle_download eng_bad ''client-1'' (download_request ''bad-locator'')
        twin ?s))
      = trace (ticks ''client-1'' twin [1..<11] s1)
        @ [ExtractInfo (get (in_url (download_request ''bad-locator'')))]"
    by (simp only: snd_conv emit_simps)
  also have "trace (ticks ''client-1'' twin [1..<11] s1) = trace s1 @ ys"
    by (rule ys(1))
  also have "trace s1 = trace ?s @ [SendJson 2 start_msg, SendJson 2 (tick_msg 2)]"
    unfolding s1 by simp
  finally have "drop (length (trace ?s))
      (trace (snd (handle_download eng_bad ''client-1'' (download_request ''bad-locator'')
        twin ?s)))
      = [SendJson 2 start_msg, SendJson 2 (tick_msg 2)] @ ys
        @ [ExtractInfo (get (in_url (download_request ''bad-locator'')))]"
    by (simp only: append_assoc append_eq_conv_conj) simp
  then have "retrieval_messages eng_bad ''client-1'' (download_request ''bad-locator'') twin ?s 2
      = delivered 2 ([SendJson 2 start_msg, SendJson 2 (tick_msg 2)] @ ys
        @ [ExtractInfo (get (in_url (download_request ''bad-locator'')))])"
    by (simp only: retrieval_messages_def)
  also have "\<dots> = start_msg # tick_msg 2 # map tick_msg [1..<11]"
    by (simp only: delivered_append ys(2)) simp
  finally show ?thesis
    by (simp only: start_msg_def)
qed


text \<open>
  Claim C3, as stated, at two retrievals. On an engine whose info dictionary has no title
  the last event is a \<open>Completed\<close> whose summary has no title. On a registry where the
  session of websocket 2 has connected under the id \<open>client-1\<close> that another session
  uses, the other session's tick of 20 percent comes between the opening message and the
  first tick of websocket 2: what websocket 2 is handed is not a run of the protocol.
\<close>

theorem retrieval_counterexample:
  "last (map event_of (retrieval_messages eng_untitled ''client-1'' (download_request ''good-locator'')
      nobody (connect init 1 ''client-1'') 1)) = Completed None 0
   \<and> map event_of (take 3 (retrieval_messages eng_bad ''client-1'' (download_request ''bad-locator'')
        twin (connect (connect init 1 ''client-1'') 2 ''client-1'') 2))
       = [Started, Progress 20, Progress 10]
   \<and> protocol_run Idle [Started, Progress 20, Progress 10] = None"
proof -
  have "retrieval_messages eng_untitled ''client-1'' (download_request ''good-locator'')
      nobody (connect init 1 ''client-1'') 1
    = eleven_progress @ [CompleteMsg ''Download complete!'' None None 0]"
    unfolding retrieval_messages_quiet [OF owns_connect quiet_nobody]
    by (simp add: get_video_info_untitled)
  then have a: "last (map event_of (retrieval_messages eng_untitled ''client-1''
      (download_request ''good-locator'') nobody (connect init 1 ''client-1'') 1))
      = Completed None 0"
    by (simp only:) simp
  have b: "map event_of (take 3 (retrieval_messages eng_bad ''client-1''
        (download_request ''bad-locator'') twin
        (connect (connect init 1 ''client-1'') 2 ''client-1'') 2))
       = [Started, Progress 20, Progress 10]"
    unfolding retrieval_twin upt_1_11 by (simp add: tick_msg_def)
  have c: "protocol_run Idle [Started, Progress 20, Progress 10] = None"
    by simp
  from a b c show ?thesis
    by (intro conjI)
qed

text \<open>
  Claim C3, amended. When the websocket owns its id and no other session connects,
  disconnects or sends under that id while the retrieval runs, the messages the
  websocket is handed for one download message are a run of the protocol, and so is
  every prefix of them: one \<open>Started\<close> at the head and nowhere else, then progress
  percentages that never decrease and never exceed 100, then at most one terminal event.
  A \<open>Completed\<close> carries the title of the metadata, whatever it is, and the number of the
  metadata's formats.
\<close>

theorem retrieval_protocol_run:
  assumes "owns s w client_id" and "quiet client_id w sched"
  shows "(\<forall>n. protocol_run Idle
            (map event_of (take n (retrieval_messages eng client_id d sched s w))) \<noteq> None)
    \<and> (\<exists>rest. map event_of (retrieval_messages eng client_id d sched s w) = Started # rest
          \<and> Started \<notin> set rest)
    \<and> length (filter is_terminal (map event_of (retrieval_messages eng client_id d sched s w))) \<le> 1
    \<and> (\<forall>title n. Completed title n \<in> set (map event_of (retrieval_messages eng client_id d sched s w))
          \<longrightarrow> (\<exists>md. get_video_info eng (get (in_url d)) = Inr md
                  \<and> title = md_title md \<and> n = length (md_formats md)))"
proof (cases "get_video_info eng (get (in_url d))")
  case (Inl e)
  then have m: "retrieval_messages eng client_id d sched s w = eleven_progress"
    by (simp add: retrieval_messages_quiet [OF assms])
  have "protocol_run Idle (map event_of (take n eleven_progress)) \<noteq> None" for n
    unfolding take_map [symmetric] by (rule protocol_run_take) (simp add: protocol_run_eleven)
  then have h1: "\<forall>n. protocol_run Idle (map event_of (take n eleven_progress)) \<noteq> None"
    by blast
  have h2: "\<exists>rest. map event_of eleven_progress = Started # rest \<and> Started \<notin> set rest"
    by (simp add: events_eleven_progress)
  have h3: "length (filter is_terminal (map event_of eleven_progress)) \<le> 1"
    by (simp only: terminal_eleven) simp
  have h4: "\<forall>title n. Completed title n \<in> set (map event_of eleven_progress)
          \<longrightarrow> (\<exists>md. get_video_info eng (get (in_url d)) = Inr md
                  \<and> title = md_title md \<and> n = length (md_formats md))"
    using completed_eleven by blast
  from h1 h2 h3 h4 show ?thesis
    unfolding m by (intro conjI)
next
  case (Inr md)
  let ?c = "CompleteMsg ''Download complete!'' (md_title md) (md_duration_string md)
              (length (md_formats md))"
  from Inr have m: "retrieval_messages eng client_id d sched s w = eleven_progress @ [?c]"
    by (simp add: retrieval_messages_quiet [OF assms])
  have "protocol_run Idle (map event_of (take n (eleven_progress @ [?c]))) \<noteq> None" for n
    unfolding take_map [symmetric] by (rule protocol_run_take) (simp add: protocol_run_complete)
  then have h1: "\<forall>n. protocol_run Idle (map event_of (take n (eleven_progress @ [?c]))) \<noteq> None"
    by blast
  have h2: "\<exists>rest. map event_of (eleven_progress @ [?c]) = Started # rest \<and> Started \<notin> set rest"
    by (simp add: events_eleven_progress)
  have h3: "length (filter is_terminal (map event_of (eleven_progress @ [?c]))) \<le> 1"
    using terminal_eleven by simp
  have "set (map event_of (eleven_progress @ [?c]))
          = set (map event_of eleven_progress) \<union> {Completed (md_title md) (length (md_formats md))}"
    by simp
  with completed_eleven Inr
  have h4: "\<forall>title n. Completed title n \<in> set (map event_of (eleven_progress @ [?c]))
          \<longrightarrow> (\<exists>md. get_video_info eng (get (in_url d)) = Inr md
                  \<and> title = md_title md \<and> n = length (md_formats md))"
    by blast
  from h1 h2 h3 h4 show ?thesis
    unfolding m by (intro conjI)
qed

theorem retrieval_protocol_run_witness:
  "owns (connect init 7 ''client-1'') 7 ''client-1''
   \<and> quiet ''client-1'' 7 neighbours
   \<and> (\<forall>n. protocol_run Idle (map event_of (take n (retrieval_messages eng_two ''client-1''
          (download_request ''good-locator'') neighbours (connect init 7 ''client-1'') 7))) \<noteq> None)
   \<and> length (filter is_terminal (map event_of (retrieval_messages eng_two ''client-1''
          (download_request ''good-locator'') neighbours (connect init 7 ''client-1'') 7))) \<le> 1"
  using retrieval_protocol_run [OF owns_connect quiet_neighbours, of eng_two
      "download_request ''good-locator''"] owns_connect [of 7 "''client-1''"] quiet_neighbours
  by blast












end
